theory Spec2Isabelle
  imports Main "HOL-Library.Word"
begin

unbundle bit_operations_syntax

section \<open>Data model of scopedalloc.h\<close>

text \<open>
  The header is written for a POSIX platform (it calls \<^verbatim>\<open>posix_memalign\<close>); the model is
  the LP64 instance: \<^verbatim>\<open>size_t\<close> and \<^verbatim>\<open>char *\<close> are 64-bit words. Pointer arithmetic and
  pointer comparison are the unsigned word operations, so \<^verbatim>\<open>p + n\<close> wraps modulo \<open>2 ^ 64\<close>
  and the null pointer is the word \<open>0\<close>.
\<close>

type_synonym size_t = "64 word"
type_synonym ptr = "64 word"

text \<open>
  Every \<^verbatim>\<open>throw fflerror(...)\<close> of the header is one constructor:
  \<^item> \<open>EmptyAlignedBuf\<close>: "empty aligned_buf" (\<^verbatim>\<open>set_buf\<close>);
  \<^item> \<open>NoValidBuffer\<close>: "no valid buffer attached to arena_interf" (\<^verbatim>\<open>get_buf_ex\<close>);
  \<^item> \<open>LifetimeViolation\<close>: "allocator has outlived arena_interf" (\<^verbatim>\<open>detect_outlive\<close>);
  \<^item> \<open>AllocationFailure alignment byte_count\<close>: "posix_memalign(...) failed"
    (\<^verbatim>\<open>overalign_alloc\<close>);
  \<^item> \<open>InvalidArgument\<close>: "invalid allocation: byte_count = 0" (\<^verbatim>\<open>dynamic_arena::alloc\<close>);
  \<^item> \<open>InitialBufferDynamic\<close>: "allocate initial buffer dynamically" (\<^verbatim>\<open>svobuf\<close>).
\<close>

datatype error =
    EmptyAlignedBuf
  | NoValidBuffer
  | LifetimeViolation
  | AllocationFailure size_t size_t
  | InvalidArgument
  | InitialBufferDynamic
  | LengthError

text \<open>
  \<open>LengthError\<close> is \<^verbatim>\<open>std::length_error\<close>, which only \<^verbatim>\<open>std::vector\<close> throws.

  A call either returns, or an exception reaches the boundary of a function declared
  \<^verbatim>\<open>noexcept\<close> and \<^verbatim>\<open>std::terminate\<close> ends the process: \<open>Terminate e\<close>, with the
  exception that reached the boundary; or the call hands to \<^verbatim>\<open>free\<close> a pointer that is not
  a live block of the heap, and the behaviour of the program is undefined from there on:
  \<open>Undefined\<close>.
\<close>

datatype 'a outcome = Returns 'a | Terminate error | Undefined

definition is_power2 :: "size_t \<Rightarrow> bool" where
  "is_power2 n = (n > 0 \<and> n AND (n - 1) = 0)"

definition alignof_max_align_t :: size_t where
  "alignof_max_align_t = 16"

definition sizeof_void_ptr :: size_t where
  "sizeof_void_ptr = 8"

definition check_alignment :: "size_t \<Rightarrow> bool" where
  "check_alignment alignment =
     (if \<not> is_power2 alignment then False
      else if alignment \<le> alignof_max_align_t then True
      else alignment mod sizeof_void_ptr = 0)"

text \<open>\<^verbatim>\<open>aligned_buf\<close>: the field \<^verbatim>\<open>size\<close> is named \<open>bsize\<close> here.\<close>

record aligned_buf =
  buf :: ptr
  bsize :: size_t

text \<open>
  \<^verbatim>\<open>arena_interf<Alignment>\<close>: the three data members. The template parameter
  \<^verbatim>\<open>Alignment\<close> is the first argument \<open>A\<close> of every function that uses it; the class's
  \<^verbatim>\<open>static_assert(check_alignment(Alignment))\<close> is the hypothesis \<open>check_alignment A\<close>
  (or the weaker \<open>is_power2 A\<close>) of the theorems.
\<close>

record arena_interf =
  m_buf :: ptr
  m_size :: size_t
  m_cursor :: ptr

definition arena_interf_ctor :: arena_interf where
  "arena_interf_ctor = \<lparr>m_buf = 0, m_size = 0, m_cursor = 0\<rparr>"

definition set_buf :: "arena_interf \<Rightarrow> aligned_buf \<Rightarrow> (error + unit) \<times> arena_interf" where
  "set_buf a b =
     (if \<not> (buf b \<noteq> 0 \<and> bsize b \<noteq> 0) then (Inl EmptyAlignedBuf, a)
      else (Inr (), a\<lparr>m_cursor := buf b, m_buf := buf b, m_size := bsize b\<rparr>))"

definition has_buf :: "arena_interf \<Rightarrow> bool" where
  "has_buf a = (m_buf a \<noteq> 0 \<and> m_size a \<noteq> 0)"

definition get_buf :: "arena_interf \<Rightarrow> aligned_buf" where
  "get_buf a = \<lparr>buf = m_buf a, bsize = m_size a\<rparr>"

definition get_buf_ex :: "arena_interf \<Rightarrow> error + aligned_buf" where
  "get_buf_ex a = (if \<not> has_buf a then Inl NoValidBuffer else Inr (get_buf a))"

definition used :: "arena_interf \<Rightarrow> error + size_t" where
  "used a = (case get_buf_ex a of Inl e \<Rightarrow> Inl e | Inr b \<Rightarrow> Inr (m_cursor a - buf b))"

definition reset :: "arena_interf \<Rightarrow> (error + unit) \<times> arena_interf" where
  "reset a =
     (case get_buf_ex a of
        Inl e \<Rightarrow> (Inl e, a)
      | Inr b \<Rightarrow> (Inr (), a\<lparr>m_cursor := buf b\<rparr>))"

definition in_buf :: "arena_interf \<Rightarrow> ptr \<Rightarrow> error + bool" where
  "in_buf a p =
     (case get_buf_ex a of
        Inl e \<Rightarrow> Inl e
      | Inr b \<Rightarrow> Inr (buf b \<le> p \<and> p \<le> buf b + bsize b))"

definition aligned_size :: "size_t \<Rightarrow> size_t \<Rightarrow> size_t" where
  "aligned_size A byte_count = (byte_count + (A - 1)) AND NOT (A - 1)"

text \<open>\<^verbatim>\<open>detect_outlive\<close> with \<^verbatim>\<open>SCOPED_ALLOC_THROW_OVERLIVE\<close> defined, as the header defines it.\<close>

definition detect_outlive :: "arena_interf \<Rightarrow> error + unit" where
  "detect_outlive a =
     (case in_buf a (m_cursor a) of
        Inl e \<Rightarrow> Inl e
      | Inr ok \<Rightarrow> if \<not> ok then Inl LifetimeViolation else Inr ())"

subsection \<open>The platform heap\<close>

text \<open>
  \<^verbatim>\<open>posix_memalign\<close> and \<^verbatim>\<open>free\<close> belong to the platform. The heap is the log of the calls
  made to them, oldest first. What \<^verbatim>\<open>posix_memalign\<close> answers is the platform's choice: it is
  the parameter \<open>pm\<close>, a function of the calls made so far, the alignment and the byte
  count, with \<open>None\<close> for a non-zero return code and \<open>Some p\<close> for success with
  \<^verbatim>\<open>*memptr = p\<close>.
\<close>

datatype heap_call = Posix_memalign size_t size_t "ptr option" | Free ptr

type_synonym heap = "heap_call list"
type_synonym platform = "heap \<Rightarrow> size_t \<Rightarrow> size_t \<Rightarrow> ptr option"

text \<open>
  \<^verbatim>\<open>free(p)\<close> is defined for a live block only: a pointer that a successful
  \<^verbatim>\<open>posix_memalign\<close> has handed out and that has not been freed since. For any other
  non-null pointer it is undefined behaviour. \<open>live_rev\<close> reads a log newest call first;
  \<open>live h p\<close> says that \<open>p\<close> is a live block after the calls of \<open>h\<close>, and \<open>free_defined h p\<close>
  that \<^verbatim>\<open>free_aligned(p)\<close>, which skips the null pointer, is defined after them.
\<close>

fun live_rev :: "heap_call list \<Rightarrow> ptr \<Rightarrow> bool" where
  "live_rev [] p = False"
| "live_rev (Posix_memalign alignment byte_count r # h) p =
     (if r = Some p then True else live_rev h p)"
| "live_rev (Free q # h) p = (if q = p then False else live_rev h p)"

definition live :: "heap \<Rightarrow> ptr \<Rightarrow> bool" where
  "live h p = live_rev (rev h) p"

definition free_defined :: "heap \<Rightarrow> ptr \<Rightarrow> bool" where
  "free_defined h p = (p = 0 \<or> live h p)"

text \<open>
  \<^verbatim>\<open>SCOPED_ALLOC_SUPPORT_OVERALIGN\<close> and \<^verbatim>\<open>SCOPED_ALLOC_USE_POSIX_MEMALIGN\<close> are defined,
  so these are the branches the preprocessor keeps. \<open>overalign_free\<close> and \<open>free_aligned\<close>
  record the call to \<^verbatim>\<open>free\<close> in the log; whether that call is defined is \<open>free_defined\<close>.
  \<^verbatim>\<open>deallocate\<close>, which frees a pointer that its caller supplies, has the outcome
  \<open>Undefined\<close> when the call is not defined. \<^verbatim>\<open>dynamic_arena::alloc\<close> and the destructor free
  the buffer that the arena holds: their results show the call in the log, and \<open>live\<close> on
  the log before the call says whether it was defined.
\<close>

definition overalign_alloc :: "platform \<Rightarrow> size_t \<Rightarrow> heap \<Rightarrow> size_t \<Rightarrow> (error + ptr) \<times> heap" where
  "overalign_alloc pm A h byte_count =
     (case pm h A byte_count of
        Some aligned_ptr \<Rightarrow> (Inr aligned_ptr, h @ [Posix_memalign A byte_count (Some aligned_ptr)])
      | None \<Rightarrow> (Inl (AllocationFailure A byte_count), h @ [Posix_memalign A byte_count None]))"

definition overalign_free :: "heap \<Rightarrow> ptr \<Rightarrow> heap" where
  "overalign_free h p = h @ [Free p]"

definition alloc_aligned :: "platform \<Rightarrow> size_t \<Rightarrow> heap \<Rightarrow> size_t \<Rightarrow> (error + ptr) \<times> heap" where
  "alloc_aligned pm A h byte_count = overalign_alloc pm A h byte_count"

definition free_aligned :: "heap \<Rightarrow> ptr \<Rightarrow> heap" where
  "free_aligned h p = (if p \<noteq> 0 then overalign_free h p else h)"

text \<open>
  \<^verbatim>\<open>dynamic_alloc\<close> is virtual; no class of the header overrides it, so this is the body
  every arena of the header runs.
\<close>

definition dynamic_alloc :: "platform \<Rightarrow> size_t \<Rightarrow> heap \<Rightarrow> size_t \<Rightarrow> (error + ptr) \<times> heap" where
  "dynamic_alloc pm A h byte_count = alloc_aligned pm A h byte_count"

subsection \<open>allocate and deallocate\<close>

text \<open>
  \<^verbatim>\<open>allocate<RequestAlignment>\<close>: the template argument is used by the
  \<^verbatim>\<open>static_assert(RequestAlignment <= Alignment)\<close> only, which is decided when the program is
  compiled; the body does not read it. The result is the returned pointer or the exception,
  with the arena and the heap as they are when the function is left.
\<close>

definition allocate ::
  "platform \<Rightarrow> size_t \<Rightarrow> arena_interf \<Rightarrow> heap \<Rightarrow> size_t \<Rightarrow> (error + ptr) \<times> arena_interf \<times> heap" where
  "allocate pm A a h byte_count =
     (case detect_outlive a of
        Inl e \<Rightarrow> (Inl e, a, h)
      | Inr _ \<Rightarrow>
          if byte_count = 0 then (Inr 0, a, h)
          else
            (case get_buf_ex a of
               Inl e \<Rightarrow> (Inl e, a, h)
             | Inr b \<Rightarrow>
                 let byte_count_aligned = aligned_size A byte_count in
                 if buf b + bsize b - m_cursor a \<ge> byte_count_aligned
                 then (Inr (m_cursor a), a\<lparr>m_cursor := m_cursor a + byte_count_aligned\<rparr>, h)
                 else (case dynamic_alloc pm A h byte_count of (r, h') \<Rightarrow> (r, a, h'))))"

text \<open>
  \<^verbatim>\<open>deallocate\<close> is declared \<^verbatim>\<open>noexcept\<close>, and \<^verbatim>\<open>detect_outlive\<close> and \<^verbatim>\<open>in_buf\<close> throw:
  an exception of theirs ends the process. A pointer outside the buffer goes to
  \<^verbatim>\<open>free_aligned\<close>, hence, unless it is null, to \<^verbatim>\<open>free\<close>: undefined behaviour when it is
  not a live block of the heap.
\<close>

definition deallocate ::
  "size_t \<Rightarrow> arena_interf \<Rightarrow> heap \<Rightarrow> ptr \<Rightarrow> size_t \<Rightarrow> (arena_interf \<times> heap) outcome" where
  "deallocate A a h p byte_count =
     (case detect_outlive a of
        Inl e \<Rightarrow> Terminate e
      | Inr _ \<Rightarrow>
          (case in_buf a p of
             Inl e \<Rightarrow> Terminate e
           | Inr inside \<Rightarrow>
               if inside then
                 (if p + aligned_size A byte_count = m_cursor a
                  then Returns (a\<lparr>m_cursor := p\<rparr>, h)
                  else Returns (a, h))
               else if free_defined h p then Returns (a, free_aligned h p)
               else Undefined))"

definition arena_interf_dtor :: "arena_interf \<Rightarrow> arena_interf" where
  "arena_interf_dtor a = a\<lparr>m_cursor := 0, m_buf := 0, m_size := 0\<rparr>"

subsection \<open>fixed_arena and dynamic_arena\<close>

text \<open>
  \<^verbatim>\<open>fixed_arena<ByteCount, Alignment>\<close>: the constructor attaches the inline array.
  \<open>m_storage\<close> is the address of that array, which is where the object lives.
\<close>

definition fixed_arena :: "ptr \<Rightarrow> size_t \<Rightarrow> (error + unit) \<times> arena_interf" where
  "fixed_arena m_storage ByteCount =
     set_buf arena_interf_ctor \<lparr>buf = m_storage, bsize = ByteCount\<rparr>"

definition alloc ::
  "platform \<Rightarrow> size_t \<Rightarrow> arena_interf \<Rightarrow> heap \<Rightarrow> size_t \<Rightarrow> (error + unit) \<times> arena_interf \<times> heap" where
  "alloc pm A a h byte_count =
     (if byte_count = 0 then (Inl InvalidArgument, a, h)
      else
        let h1 = (if has_buf a then free_aligned h (buf (get_buf a)) else h) in
        (case alloc_aligned pm A h1 byte_count of
           (Inl e, h2) \<Rightarrow> (Inl e, a, h2)
         | (Inr p, h2) \<Rightarrow>
             (case set_buf a \<lparr>buf = p, bsize = byte_count\<rparr> of (r, a') \<Rightarrow> (r, a', h2))))"

text \<open>The two constructors and the destructor of \<^verbatim>\<open>dynamic_arena<Alignment>\<close>.\<close>

definition dynamic_arena ::
  "platform \<Rightarrow> size_t \<Rightarrow> heap \<Rightarrow> size_t \<Rightarrow> (error + unit) \<times> arena_interf \<times> heap" where
  "dynamic_arena pm A h byte_count =
     (if byte_count = 0 then (Inr (), arena_interf_ctor, h)
      else alloc pm A arena_interf_ctor h byte_count)"

definition dynamic_arena_buf :: "aligned_buf \<Rightarrow> (error + unit) \<times> arena_interf" where
  "dynamic_arena_buf b = set_buf arena_interf_ctor b"

definition dynamic_arena_dtor :: "arena_interf \<Rightarrow> heap \<Rightarrow> arena_interf \<times> heap" where
  "dynamic_arena_dtor a h =
     (arena_interf_dtor a, if has_buf a then free_aligned h (buf (get_buf a)) else h)"

subsection \<open>allocator\<close>

text \<open>
  \<^verbatim>\<open>allocator<T, Alignment>\<close> holds a reference to an arena. Arena objects live in a store,
  and a reference is the identity of the object it names. Of the element type \<^verbatim>\<open>T\<close> the
  code reads \<^verbatim>\<open>sizeof(T)\<close> and \<^verbatim>\<open>alignof(T)\<close>.
\<close>

type_synonym arena_ref = nat
type_synonym store = "arena_ref \<Rightarrow> arena_interf"

record allocator =
  m_arena :: arena_ref
  Alignment :: size_t
  sizeof_T :: size_t
  alignof_T :: size_t

definition allocator_ctor :: "size_t \<Rightarrow> size_t \<Rightarrow> size_t \<Rightarrow> arena_ref \<Rightarrow> allocator" where
  "allocator_ctor sz al A arena_ref =
     \<lparr>m_arena = arena_ref, Alignment = A, sizeof_T = sz, alignof_T = al\<rparr>"

text \<open>The converting constructor from \<^verbatim>\<open>allocator<U, Alignment>\<close>, which rebinding uses.\<close>

definition allocator_conv :: "size_t \<Rightarrow> size_t \<Rightarrow> allocator \<Rightarrow> allocator" where
  "allocator_conv sz al alloc_ref =
     \<lparr>m_arena = m_arena alloc_ref, Alignment = Alignment alloc_ref, sizeof_T = sz, alignof_T = al\<rparr>"

definition allocator_allocate ::
  "platform \<Rightarrow> allocator \<Rightarrow> store \<Rightarrow> heap \<Rightarrow> size_t \<Rightarrow> (error + ptr) \<times> store \<times> heap" where
  "allocator_allocate pm x st h n =
     (case allocate pm (Alignment x) (st (m_arena x)) h (n * sizeof_T x) of
        (r, a', h') \<Rightarrow> (r, st(m_arena x := a'), h'))"

definition allocator_deallocate ::
  "allocator \<Rightarrow> store \<Rightarrow> heap \<Rightarrow> ptr \<Rightarrow> size_t \<Rightarrow> (store \<times> heap) outcome" where
  "allocator_deallocate x st h p n =
     (case deallocate (Alignment x) (st (m_arena x)) h p (n * sizeof_T x) of
        Terminate e \<Rightarrow> Terminate e
      | Undefined \<Rightarrow> Undefined
      | Returns (a', h') \<Rightarrow> Returns (st(m_arena x := a'), h'))"

definition operator_eq :: "allocator \<Rightarrow> allocator \<Rightarrow> bool" where
  "operator_eq x parm = (Alignment x = Alignment parm \<and> m_arena x = m_arena parm)"

definition operator_ne :: "allocator \<Rightarrow> allocator \<Rightarrow> bool" where
  "operator_ne x parm = (\<not> operator_eq x parm)"

subsection \<open>svobuf and the sequence it wraps\<close>

text \<open>
  Modelled from the spec: \<^verbatim>\<open>std::vector\<close>, the member \<^verbatim>\<open>c\<close> of \<^verbatim>\<open>svobuf\<close>, is not in the
  repository; the spec excludes "the generic dynamic-sequence container itself (assumed to
  exist and to accept a pluggable allocation strategy satisfying a minimal contract -
  allocate(n), deallocate(ptr,n), equality, rebind-to-type)". The model keeps what the
  allocator can observe of a sequence: its allocator handle, its storage pointer, its size
  and its capacity; the elements are not modelled. What the C++ standard leaves to the
  implementation is the parameter \<open>impl\<close>: \<^verbatim>\<open>max_size()\<close>, the capacity \<^verbatim>\<open>reserve(n)\<close>
  allocates when it reallocates (the standard asks for at least \<open>n\<close>), and the capacity
  \<^verbatim>\<open>push_back\<close> allocates when the sequence is full. A reallocation allocates the new
  storage from the handle and then gives the old storage, if there is one, back to it.
\<close>

record vector_impl =
  max_size :: size_t
  reserve_capacity :: "size_t \<Rightarrow> size_t"
  grow_capacity :: "size_t \<Rightarrow> size_t"

record vector =
  v_alloc :: allocator
  v_data :: ptr
  v_size :: size_t
  v_capacity :: size_t

definition vector_ctor :: "allocator \<Rightarrow> vector" where
  "vector_ctor x = \<lparr>v_alloc = x, v_data = 0, v_size = 0, v_capacity = 0\<rparr>"

definition vector_reallocate ::
  "platform \<Rightarrow> vector \<Rightarrow> store \<Rightarrow> heap \<Rightarrow> size_t \<Rightarrow>
     ((error + unit) \<times> vector \<times> store \<times> heap) outcome" where
  "vector_reallocate pm v st h cap =
     (case allocator_allocate pm (v_alloc v) st h cap of
        (Inl e, st', h') \<Rightarrow> Returns (Inl e, v, st', h')
      | (Inr p, st', h') \<Rightarrow>
          if v_data v = 0 then Returns (Inr (), v\<lparr>v_data := p, v_capacity := cap\<rparr>, st', h')
          else
            (case allocator_deallocate (v_alloc v) st' h' (v_data v) (v_capacity v) of
               Terminate e \<Rightarrow> Terminate e
             | Undefined \<Rightarrow> Undefined
             | Returns (st'', h'') \<Rightarrow>
                 Returns (Inr (), v\<lparr>v_data := p, v_capacity := cap\<rparr>, st'', h'')))"

definition reserve ::
  "vector_impl \<Rightarrow> platform \<Rightarrow> vector \<Rightarrow> store \<Rightarrow> heap \<Rightarrow> size_t \<Rightarrow>
     ((error + unit) \<times> vector \<times> store \<times> heap) outcome" where
  "reserve impl pm v st h n =
     (if n > max_size impl then Returns (Inl LengthError, v, st, h)
      else if n \<le> v_capacity v then Returns (Inr (), v, st, h)
      else vector_reallocate pm v st h (reserve_capacity impl n))"

definition push_back ::
  "vector_impl \<Rightarrow> platform \<Rightarrow> vector \<Rightarrow> store \<Rightarrow> heap \<Rightarrow>
     ((error + unit) \<times> vector \<times> store \<times> heap) outcome" where
  "push_back impl pm v st h =
     (if v_size v < v_capacity v then Returns (Inr (), v\<lparr>v_size := v_size v + 1\<rparr>, st, h)
      else if v_size v = max_size impl then Returns (Inl LengthError, v, st, h)
      else
        (case vector_reallocate pm v st h (grow_capacity impl (v_capacity v)) of
           Returns (Inr _, v', st', h') \<Rightarrow> Returns (Inr (), v'\<lparr>v_size := v_size v' + 1\<rparr>, st', h')
         | other \<Rightarrow> other))"

definition vector_dtor :: "vector \<Rightarrow> store \<Rightarrow> heap \<Rightarrow> (store \<times> heap) outcome" where
  "vector_dtor v st h =
     (if v_data v = 0 then Returns (st, h)
      else allocator_deallocate (v_alloc v) st h (v_data v) (v_capacity v))"

text \<open>\<open>k\<close> insertions in a row, stopping at the first that does not return normally.\<close>

fun push_back_n ::
  "vector_impl \<Rightarrow> platform \<Rightarrow> nat \<Rightarrow> vector \<Rightarrow> store \<Rightarrow> heap \<Rightarrow>
     ((error + unit) \<times> vector \<times> store \<times> heap) outcome" where
  "push_back_n impl pm 0 v st h = Returns (Inr (), v, st, h)"
| "push_back_n impl pm (Suc k) v st h =
     (case push_back impl pm v st h of
        Returns (Inr _, v', st', h') \<Rightarrow> push_back_n impl pm k v' st' h'
      | other \<Rightarrow> other)"

text \<open>
  \<^verbatim>\<open>svobuf<T, N>\<close>: the member \<^verbatim>\<open>m_arena\<close> is a
  \<^verbatim>\<open>fixed_arena<N * sizeof(T), alignof(T)>\<close>, an object of the store named \<open>r\<close>, whose inline
  array is at \<open>m_storage\<close>. When the constructor throws, the members built so far are
  destroyed in reverse order: the sequence, then the arena.
\<close>

record svobuf =
  sv_m_arena :: arena_ref
  c :: vector

definition svobuf_unwind ::
  "error \<Rightarrow> arena_ref \<Rightarrow> vector \<Rightarrow> store \<Rightarrow> heap \<Rightarrow> ((error + svobuf) \<times> store \<times> heap) outcome" where
  "svobuf_unwind e r v st h =
     (case vector_dtor v st h of
        Terminate e' \<Rightarrow> Terminate e'
      | Undefined \<Rightarrow> Undefined
      | Returns (st', h') \<Rightarrow> Returns (Inl e, st'(r := arena_interf_dtor (st' r)), h'))"

definition svobuf_ctor ::
  "vector_impl \<Rightarrow> platform \<Rightarrow> size_t \<Rightarrow> size_t \<Rightarrow> size_t \<Rightarrow> arena_ref \<Rightarrow> ptr \<Rightarrow> store \<Rightarrow> heap \<Rightarrow>
     ((error + svobuf) \<times> store \<times> heap) outcome" where
  "svobuf_ctor impl pm sz al N r m_storage st h =
     (case fixed_arena m_storage (N * sz) of
        (Inl e, a) \<Rightarrow> Returns (Inl e, st(r := arena_interf_dtor a), h)
      | (Inr _, a) \<Rightarrow>
          (case reserve impl pm (vector_ctor (allocator_ctor sz al al r)) (st(r := a)) h N of
             Terminate e \<Rightarrow> Terminate e
           | Undefined \<Rightarrow> Undefined
           | Returns (Inl e, c1, st1, h1) \<Rightarrow> svobuf_unwind e r c1 st1 h1
           | Returns (Inr _, c1, st1, h1) \<Rightarrow>
               if v_capacity c1 > N then svobuf_unwind InitialBufferDynamic r c1 st1 h1
               else Returns (Inr \<lparr>sv_m_arena = r, c = c1\<rparr>, st1, h1)))"

definition svocap :: "size_t \<Rightarrow> size_t" where
  "svocap N = N"

subsection \<open>Sequences of calls, and rounding as the specification words it\<close>

text \<open>
  A client of one arena: a list of calls, run in order. An exception of \<^verbatim>\<open>allocate\<close> or
  \<^verbatim>\<open>reset\<close> is caught by the client, which goes on with the arena as the throwing call left
  it; the results of the \<^verbatim>\<open>allocate\<close> calls are collected in order. \<open>Terminate\<close> and
  \<open>Undefined\<close> end the run.
\<close>

datatype call = Allocate size_t | Deallocate ptr size_t | Reset

fun run ::
  "platform \<Rightarrow> size_t \<Rightarrow> arena_interf \<Rightarrow> heap \<Rightarrow> call list \<Rightarrow>
     ((error + ptr) list \<times> arena_interf \<times> heap) outcome" where
  "run pm A a h [] = Returns ([], a, h)"
| "run pm A a h (Allocate n # cs) =
     (case allocate pm A a h n of
        (r, a', h') \<Rightarrow>
          (case run pm A a' h' cs of
             Terminate e \<Rightarrow> Terminate e
           | Undefined \<Rightarrow> Undefined
           | Returns (rs, a'', h'') \<Rightarrow> Returns (r # rs, a'', h'')))"
| "run pm A a h (Deallocate p n # cs) =
     (case deallocate A a h p n of
        Terminate e \<Rightarrow> Terminate e
      | Undefined \<Rightarrow> Undefined
      | Returns (a', h') \<Rightarrow> run pm A a' h' cs)"
| "run pm A a h (Reset # cs) =
     (case reset a of (r, a') \<Rightarrow> run pm A a' h cs)"

text \<open>
  "Rounded up to the nearest multiple of the alignment", over the natural numbers, where
  nothing wraps: the least multiple of \<open>a\<close> that is at least \<open>n\<close> (lemma \<open>round_up_least\<close>).
\<close>

definition round_up :: "nat \<Rightarrow> nat \<Rightarrow> nat" where
  "round_up a n = (n + a - 1) div a * a"

subsection \<open>Platforms and objects used in the examples\<close>

text \<open>
  Two platforms for the concrete examples: on \<open>platform_at p\<close> every \<^verbatim>\<open>posix_memalign\<close>
  succeeds with the block at \<open>p\<close>; on \<open>platform_fail\<close> every \<^verbatim>\<open>posix_memalign\<close> fails.
  \<open>platform_fresh\<close> hands out blocks one megabyte apart, a new one at every call that the
  log records.
\<close>

definition platform_at :: "ptr \<Rightarrow> platform" where
  "platform_at p h alignment byte_count = Some p"

definition platform_fail :: platform where
  "platform_fail h alignment byte_count = None"

definition platform_fresh :: platform where
  "platform_fresh h alignment byte_count = Some (push_bit 20 (1 + of_nat (length h)))"

text \<open>
  A sequence implementation for the examples, with the policy of the common standard
  libraries: \<^verbatim>\<open>reserve(n)\<close> allocates exactly \<open>n\<close> elements and a full sequence doubles. And a
  store in which no arena has a buffer yet.
\<close>

definition vector_exact :: vector_impl where
  "vector_exact =
     \<lparr>max_size = 2305843009213693951,
      reserve_capacity = (\<lambda>n. n),
      grow_capacity = (\<lambda>cap. if cap = 0 then 1 else 2 * cap)\<rparr>"

definition store_empty :: store where
  "store_empty r = arena_interf_ctor"

section \<open>Arithmetic of the size rounding\<close>

lemma nat_and_pred_zero:
  "0 < n \<Longrightarrow> n AND (n - 1) = (0::nat) \<Longrightarrow> \<exists>k. n = 2 ^ k"
proof (induction n rule: less_induct)
  case (less n)
  show ?case
  proof (cases "odd n")
    case True
    then obtain m where m: "n = 2 * m + 1" by (auto elim: oddE)
    have "n AND (n - 1) = 2 * m"
      unfolding m by (subst and_nat_rec) simp
    with less.prems have "m = 0" by simp
    with m have "n = 2 ^ 0" by simp
    then show ?thesis by blast
  next
    case False
    then obtain m where m: "n = 2 * m" by (auto elim: evenE)
    with less.prems have mpos: "0 < m" by simp
    have pred: "n - 1 = 2 * (m - 1) + 1" using m mpos by simp
    have "n AND (n - 1) = 2 * (m AND (m - 1))"
      unfolding pred unfolding m by (subst and_nat_rec) simp
    with less.prems have "m AND (m - 1) = 0" by simp
    moreover have "m < n" using m mpos by simp
    ultimately obtain k where "m = 2 ^ k" using less.IH mpos by blast
    with m have "n = 2 ^ Suc k" by simp
    then show ?thesis by blast
  qed
qed

lemma unat_lt64: "unat (x::64 word) < 2 ^ 64"
  using unsigned_less [of x] by simp

lemma is_power2_exp: "is_power2 A \<Longrightarrow> \<exists>k<64. A = 2 ^ k \<and> unat A = 2 ^ k"
proof -
  assume a: "is_power2 A"
  then have nz: "A \<noteq> 0" and z: "A AND (A - 1) = 0"
    by (auto simp: is_power2_def)
  have "unat (A AND (A - 1)) = unat A AND (unat A - 1)"
    by (simp add: unsigned_and_eq unat_minus_one nz)
  with z have "unat A AND (unat A - 1) = 0" by simp
  moreover have "0 < unat A" using nz by (simp add: unat_gt_0)
  ultimately obtain k where k: "unat A = 2 ^ k"
    using nat_and_pred_zero by blast
  have "unat A < 2 ^ LENGTH(64)" by (rule unsigned_less)
  with k have "(2::nat) ^ k < 2 ^ 64" by simp
  then have "k < 64" by (simp only: power_strict_increasing_iff one_less_numeral_iff semiring_norm)
  moreover have "A = 2 ^ k"
  proof -
    have "A = of_nat (unat A)" by simp
    also have "\<dots> = 2 ^ k" unfolding k by simp
    finally show ?thesis .
  qed
  ultimately show ?thesis using k by blast
qed

lemma exp_is_power2: "k < 64 \<Longrightarrow> is_power2 (2 ^ k)"
proof -
  assume k: "k < 64"
  have "(2::64 word) ^ k AND mask k = 0"
    by (rule bit_eqI) (auto simp: bit_simps)
  moreover have "(2::64 word) ^ k \<noteq> 0" using k by simp
  ultimately show ?thesis
    by (simp add: is_power2_def mask_eq_decr_exp word_gt_0)
qed

lemma and_not_mask_unat:
  "unat ((x::64 word) AND NOT (mask k)) = unat x div 2 ^ k * 2 ^ k"
proof -
  have "x AND NOT (mask k) = push_bit k (drop_bit k x)"
    by (rule bit_eqI) (auto simp: bit_simps)
  then have "unat (x AND NOT (mask k)) = unat (push_bit k (drop_bit k x))"
    by simp
  also have "\<dots> = take_bit 64 (push_bit k (drop_bit k (unat x)))"
    by (simp only: unsigned_push_bit_eq unat_drop_bit_eq) simp
  also have "\<dots> = take_bit 64 (unat x div 2 ^ k * 2 ^ k)"
    by (simp add: push_bit_eq_mult drop_bit_eq_div)
  finally have "unat (x AND NOT (mask k)) = take_bit 64 (unat x div 2 ^ k * 2 ^ k)" .
  moreover have "unat x div 2 ^ k * 2 ^ k < 2 ^ 64"
  proof (rule le_less_trans)
    show "unat x div 2 ^ k * 2 ^ k \<le> unat x" by simp
    show "unat x < 2 ^ 64" using unsigned_less [of x] by simp
  qed
  then have "take_bit 64 (unat x div 2 ^ k * 2 ^ k) = unat x div 2 ^ k * 2 ^ k"
    by (rule take_bit_nat_eq_self)
  ultimately show ?thesis by (simp only:)
qed

lemma aligned_size_unat:
  assumes "is_power2 A"
  shows "unat (aligned_size A n) = (unat n + (unat A - 1)) mod 2 ^ 64 div unat A * unat A"
proof -
  from assms obtain k where k: "k < 64" and A: "A = 2 ^ k" and uA: "unat A = 2 ^ k"
    using is_power2_exp by blast
  have nz: "A \<noteq> 0" using assms by (auto simp: is_power2_def)
  have m: "A - 1 = mask k" by (simp add: A mask_eq_decr_exp)
  have "unat (aligned_size A n) = unat (n + (A - 1)) div 2 ^ k * 2 ^ k"
    unfolding aligned_size_def m by (rule and_not_mask_unat)
  also have "unat (n + (A - 1)) = (unat n + (unat A - 1)) mod 2 ^ 64"
    by (simp add: unat_word_ariths unat_minus_one nz)
  finally show ?thesis by (simp only: uA)
qed

lemma round_up_least:
  assumes "0 < a"
  shows "a dvd round_up a n" and "n \<le> round_up a n"
    and "a dvd m \<Longrightarrow> n \<le> m \<Longrightarrow> round_up a n \<le> m"
proof -
  show "a dvd round_up a n" by (simp add: round_up_def)
  show "n \<le> round_up a n"
  proof -
    have "n + a - 1 < (n + a - 1) div a * a + a"
      using assms by (metis add.commute dividend_less_div_times)
    then show ?thesis unfolding round_up_def using assms by linarith
  qed
  show "round_up a n \<le> m" if "a dvd m" "n \<le> m"
  proof -
    from that obtain q where q: "m = a * q" by (auto elim: dvdE)
    have "(n + a - 1) div a \<le> q"
    proof -
      have "n + a - 1 < a * q + a" using that q assms by linarith
      then have "n + a - 1 < a * Suc q" by simp
      then have "(n + a - 1) div a < Suc q"
        using assms by (simp add: less_mult_imp_div_less mult.commute)
      then show ?thesis by simp
    qed
    then show ?thesis unfolding round_up_def q by (simp add: mult.commute)
  qed
qed

lemma aligned_size_round_up:
  assumes "is_power2 A" and "unat n + (unat A - 1) < 2 ^ 64"
  shows "unat (aligned_size A n) = round_up (unat A) (unat n)"
proof -
  have pos: "0 < unat A" using assms(1) by (auto simp: is_power2_def unat_gt_0 word_gt_0)
  have "(unat n + (unat A - 1)) mod 2 ^ 64 = unat n + (unat A - 1)"
    using assms(2) by (rule mod_less)
  then have "unat (aligned_size A n) = (unat n + (unat A - 1)) div unat A * unat A"
    by (simp only: aligned_size_unat [OF assms(1)])
  moreover have "unat n + (unat A - 1) = unat n + unat A - 1" using pos by simp
  ultimately show ?thesis by (simp only: round_up_def)
qed

lemma aligned_size_wrap:
  assumes "is_power2 A" and "2 ^ 64 \<le> unat n + (unat A - 1)"
  shows "aligned_size A n = 0"
proof -
  have pos: "0 < unat A" using assms(1) by (auto simp: is_power2_def unat_gt_0 word_gt_0)
  have n: "unat n < 2 ^ 64" by (rule unat_lt64)
  have "(unat n + (unat A - 1)) mod 2 ^ 64 = unat n + (unat A - 1) - 2 ^ 64"
  proof -
    have "unat n + (unat A - 1) - 2 ^ 64 < 2 ^ 64"
      using n unat_lt64 [of A] by simp
    then have "(unat n + (unat A - 1) - 2 ^ 64) mod 2 ^ 64 = unat n + (unat A - 1) - 2 ^ 64"
      by (rule mod_less)
    then show ?thesis using assms(2) by (simp only: le_mod_geq)
  qed
  moreover have "unat n + (unat A - 1) - 2 ^ 64 < unat A" using n pos by linarith
  ultimately have "(unat n + (unat A - 1)) mod 2 ^ 64 div unat A = 0" by simp
  then have "unat (aligned_size A n) = 0"
    by (simp only: aligned_size_unat [OF assms(1)] mult_0)
  then show ?thesis by (simp add: unat_eq_0)
qed

lemma aligned_size_low_bits: "aligned_size A n AND (A - 1) = 0"
  unfolding aligned_size_def by (rule bit_eqI) (auto simp: bit_simps)

lemma dvd_iff_low_bits:
  assumes "is_power2 A"
  shows "unat A dvd unat p \<longleftrightarrow> p AND (A - 1) = 0"
proof -
  from assms obtain k where k: "k < 64" and A: "A = 2 ^ k" and uA: "unat A = 2 ^ k"
    using is_power2_exp by blast
  have m: "A - 1 = mask k" by (simp add: A mask_eq_decr_exp)
  show ?thesis unfolding uA m by (rule and_mask_dvd_nat)
qed

lemma aligned_size_dvd: "is_power2 A \<Longrightarrow> unat A dvd unat (aligned_size A n)"
  by (simp add: dvd_iff_low_bits aligned_size_low_bits)

lemma is_power2_dvd_word:
  assumes "is_power2 A"
  shows "unat A dvd 2 ^ 64"
proof -
  from assms obtain k where k: "k < 64" and A: "A = 2 ^ k" and uA: "unat A = 2 ^ k"
    using is_power2_exp by blast
  have "k \<le> 64" using k by simp
  then have "(2::nat) ^ k dvd 2 ^ 64" by (rule le_imp_power_dvd)
  then show ?thesis by (simp only: uA)
qed

lemma dvd_word_add:
  fixes x y :: "64 word"
  assumes "is_power2 A" and "unat A dvd unat x" and "unat A dvd unat y"
  shows "unat A dvd unat (x + y)"
proof -
  have "unat (x + y) = (unat x + unat y) mod 2 ^ 64"
    using unat_word_ariths(1) [of x y] by simp
  moreover have "unat A dvd (unat x + unat y) mod 2 ^ 64"
    using is_power2_dvd_word [OF assms(1)] assms(2,3) by (simp only: dvd_mod_iff dvd_add)
  ultimately show ?thesis by (simp only:)
qed

lemma dvd_word_diff:
  fixes x y :: "64 word"
  assumes "is_power2 A" and "unat A dvd unat x" and "unat A dvd unat y"
  shows "unat A dvd unat (x - y)"
proof (cases "unat y \<le> unat x")
  case True
  then have "unat (x - y) = unat x - unat y"
    by (simp add: unat_sub_if')
  then show ?thesis using assms(2,3) by (simp add: dvd_diff_nat)
next
  case False
  then have "unat (x - y) = unat x + 2 ^ 64 - unat y"
    using unat_sub_if' [of x y] by simp
  moreover have "unat A dvd unat x + 2 ^ 64"
    using is_power2_dvd_word [OF assms(1)] assms(2) by (rule dvd_add [rotated])
  ultimately show ?thesis using assms(3) by (simp only: dvd_diff_nat)
qed

section \<open>Facts about the arena operations\<close>

lemma detect_outlive_ok:
  "detect_outlive a = Inr () \<longleftrightarrow>
     has_buf a \<and> m_buf a \<le> m_cursor a \<and> m_cursor a \<le> m_buf a + m_size a"
  by (auto simp: detect_outlive_def in_buf_def get_buf_ex_def get_buf_def)

lemma allocate_zero_aligned:
  assumes "detect_outlive a = Inr ()" and "aligned_size A n = 0" and "n \<noteq> 0"
  shows "allocate pm A a h n = (Inr (m_cursor a), a, h)"
proof -
  have hb: "has_buf a" using assms(1) by (simp add: detect_outlive_ok)
  show ?thesis
    using assms hb by (simp add: allocate_def get_buf_ex_def)
qed

lemma is_power2_pos: "is_power2 A \<Longrightarrow> 0 < unat A"
  by (auto simp: is_power2_def unat_gt_0 word_gt_0)

lemma unat_max64: "unat (- 1 :: 64 word) = 2 ^ 64 - 1"
  by (simp add: unsigned_minus_1_eq_mask mask_eq_exp_minus_1)

lemma max64_numeral: "(- 1 :: 64 word) = 18446744073709551615"
  by simp

lemma unat_add_no_wrap:
  fixes x y :: "64 word"
  shows "unat x + unat y < 2 ^ 64 \<Longrightarrow> unat (x + y) = unat x + unat y"
  using unat_add_lem [of x y] by simp

lemma word_le_add_no_wrap:
  fixes x y :: "64 word"
  shows "x \<le> x + y \<longleftrightarrow> unat x + unat y < 2 ^ 64"
  using no_plus_overflow_unat_size [of x y] by (simp add: word_size)

lemma in_range_unat:
  fixes b s c :: "64 word"
  shows "b \<le> c \<and> c \<le> b + s \<longleftrightarrow>
         unat b \<le> unat c \<and> unat c \<le> unat b + unat s \<and> unat b + unat s < 2 ^ 64"
proof
  assume h: "b \<le> c \<and> c \<le> b + s"
  then have "b \<le> b + s" by (meson order_trans)
  then have nw: "unat b + unat s < 2 ^ 64" by (simp only: word_le_add_no_wrap)
  then have "unat (b + s) = unat b + unat s" by (rule unat_add_no_wrap)
  with h nw show "unat b \<le> unat c \<and> unat c \<le> unat b + unat s \<and> unat b + unat s < 2 ^ 64"
    by (simp add: word_le_nat_alt)
next
  assume h: "unat b \<le> unat c \<and> unat c \<le> unat b + unat s \<and> unat b + unat s < 2 ^ 64"
  then have "unat (b + s) = unat b + unat s" by (simp only: unat_add_no_wrap)
  with h show "b \<le> c \<and> c \<le> b + s" by (simp add: word_le_nat_alt)
qed

lemma detect_outlive_unat:
  "detect_outlive a = Inr () \<longleftrightarrow>
     has_buf a \<and> unat (m_buf a) \<le> unat (m_cursor a)
     \<and> unat (m_cursor a) \<le> unat (m_buf a) + unat (m_size a)
     \<and> unat (m_buf a) + unat (m_size a) < 2 ^ 64"
  by (simp only: detect_outlive_ok in_range_unat)

lemma detect_outlive_cases:
  "detect_outlive a =
     (if \<not> has_buf a then Inl NoValidBuffer
      else if m_buf a \<le> m_cursor a \<and> m_cursor a \<le> m_buf a + m_size a then Inr ()
      else Inl LifetimeViolation)"
  by (simp add: detect_outlive_def in_buf_def get_buf_ex_def get_buf_def)

lemma allocate_outlived:
  "detect_outlive a = Inl e \<Longrightarrow> allocate pm A a h n = (Inl e, a, h)"
  by (simp add: allocate_def)

lemma allocate_null:
  "detect_outlive a = Inr () \<Longrightarrow> allocate pm A a h 0 = (Inr 0, a, h)"
  by (simp add: allocate_def)

lemma allocate_bump:
  assumes "detect_outlive a = Inr ()" and "n \<noteq> 0"
    and "aligned_size A n \<le> m_buf a + m_size a - m_cursor a"
  shows "allocate pm A a h n =
           (Inr (m_cursor a), a\<lparr>m_cursor := m_cursor a + aligned_size A n\<rparr>, h)"
proof -
  have "has_buf a" using assms(1) by (simp add: detect_outlive_ok)
  then show ?thesis using assms by (simp add: allocate_def get_buf_ex_def get_buf_def)
qed

lemma allocate_fallback:
  assumes "detect_outlive a = Inr ()" and "n \<noteq> 0"
    and "\<not> aligned_size A n \<le> m_buf a + m_size a - m_cursor a"
  shows "allocate pm A a h n =
           (case pm h A n of
              Some p \<Rightarrow> (Inr p, a, h @ [Posix_memalign A n (Some p)])
            | None \<Rightarrow> (Inl (AllocationFailure A n), a, h @ [Posix_memalign A n None]))"
proof -
  have "has_buf a" using assms(1) by (simp add: detect_outlive_ok)
  then show ?thesis using assms
    by (simp add: allocate_def get_buf_ex_def get_buf_def dynamic_alloc_def alloc_aligned_def
        overalign_alloc_def split: option.split)
qed

lemma remaining_unat:
  assumes "detect_outlive a = Inr ()"
  shows "unat (m_buf a + m_size a - m_cursor a)
           = unat (m_buf a) + unat (m_size a) - unat (m_cursor a)"
proof -
  from assms have r: "unat (m_cursor a) \<le> unat (m_buf a) + unat (m_size a)"
    and nw: "unat (m_buf a) + unat (m_size a) < 2 ^ 64"
    by (simp_all add: detect_outlive_unat)
  have e: "unat (m_buf a + m_size a) = unat (m_buf a) + unat (m_size a)"
    using nw by (rule unat_add_no_wrap)
  then have "m_cursor a \<le> m_buf a + m_size a" using r by (simp add: word_le_nat_alt)
  then have "unat (m_buf a + m_size a - m_cursor a) = unat (m_buf a + m_size a) - unat (m_cursor a)"
    by (rule unat_sub)
  with e show ?thesis by simp
qed

lemma bump_cursor_unat:
  assumes "detect_outlive a = Inr ()"
    and "x \<le> m_buf a + m_size a - m_cursor a"
  shows "unat (m_cursor a + x) = unat (m_cursor a) + unat x"
    and "unat (m_cursor a) + unat x \<le> unat (m_buf a) + unat (m_size a)"
proof -
  from assms(1) have r: "unat (m_cursor a) \<le> unat (m_buf a) + unat (m_size a)"
    and nw: "unat (m_buf a) + unat (m_size a) < 2 ^ 64"
    by (simp_all add: detect_outlive_unat)
  have "unat x \<le> unat (m_buf a) + unat (m_size a) - unat (m_cursor a)"
    using assms(2) by (simp add: word_le_nat_alt remaining_unat [OF assms(1)])
  with r show le: "unat (m_cursor a) + unat x \<le> unat (m_buf a) + unat (m_size a)" by simp
  with nw have "unat (m_cursor a) + unat x < 2 ^ 64" by simp
  then show "unat (m_cursor a + x) = unat (m_cursor a) + unat x" by (rule unat_add_no_wrap)
qed

lemma bump_keeps_valid:
  assumes "detect_outlive a = Inr ()"
    and "x \<le> m_buf a + m_size a - m_cursor a"
  shows "detect_outlive (a\<lparr>m_cursor := m_cursor a + x\<rparr>) = Inr ()"
  using assms(1) bump_cursor_unat [OF assms]
  by (simp add: detect_outlive_unat has_buf_def)

lemma used_unat:
  assumes "detect_outlive a = Inr ()"
  shows "\<exists>u. used a = Inr u \<and> unat u = unat (m_cursor a) - unat (m_buf a) \<and> u \<le> m_size a"
proof -
  from assms have hb: "has_buf a" and l: "unat (m_buf a) \<le> unat (m_cursor a)"
    and r: "unat (m_cursor a) \<le> unat (m_buf a) + unat (m_size a)"
    by (simp_all add: detect_outlive_unat)
  have u: "used a = Inr (m_cursor a - m_buf a)"
    using hb by (simp add: used_def get_buf_ex_def get_buf_def)
  have "m_buf a \<le> m_cursor a" using l by (simp add: word_le_nat_alt)
  then have e: "unat (m_cursor a - m_buf a) = unat (m_cursor a) - unat (m_buf a)" by (rule unat_sub)
  then have "m_cursor a - m_buf a \<le> m_size a" using r by (simp add: word_le_nat_alt)
  with u e show ?thesis by simp
qed

lemma fixed_arena_ok:
  assumes "m_storage \<noteq> 0" and "ByteCount \<noteq> 0"
  shows "fixed_arena m_storage ByteCount
           = (Inr (), \<lparr>m_buf = m_storage, m_size = ByteCount, m_cursor = m_storage\<rparr>)"
  using assms by (simp add: fixed_arena_def set_buf_def arena_interf_ctor_def)

lemma fresh_valid:
  assumes "b \<noteq> 0" and "s \<noteq> 0" and "unat b + unat s < 2 ^ 64"
  shows "detect_outlive \<lparr>m_buf = b, m_size = s, m_cursor = b\<rparr> = Inr ()"
  using assms by (simp add: detect_outlive_unat has_buf_def)

lemma in_buf_has_buf: "has_buf a \<Longrightarrow> in_buf a p = Inr (m_buf a \<le> p \<and> p \<le> m_buf a + m_size a)"
  by (simp add: in_buf_def get_buf_ex_def get_buf_def)

lemma deallocate_valid:
  assumes "detect_outlive a = Inr ()"
  shows "deallocate A a h p n =
           (if m_buf a \<le> p \<and> p \<le> m_buf a + m_size a
            then (if p + aligned_size A n = m_cursor a then Returns (a\<lparr>m_cursor := p\<rparr>, h)
                  else Returns (a, h))
            else if free_defined h p then Returns (a, free_aligned h p)
            else Undefined)"
proof -
  have "has_buf a" using assms by (simp add: detect_outlive_ok)
  then show ?thesis using assms by (simp add: deallocate_def in_buf_has_buf)
qed

lemma live_snoc_memalign: "live (h @ [Posix_memalign al n (Some p)]) p"
  by (simp add: live_def)

lemma live_snoc_free: "\<not> live (h @ [Free p]) p"
  by (simp add: live_def)

lemma aligned_size_zero: "aligned_size A 0 = 0"
  unfolding aligned_size_def by (rule bit_eqI) (auto simp: bit_simps)

lemma round_up_zero: "0 < a \<Longrightarrow> round_up a 0 = 0"
  by (simp add: round_up_def)

lemma allocate_step:
  assumes v: "detect_outlive a = Inr ()"
    and al: "allocate pm A a h n = (r, a1, h1)"
  shows "detect_outlive a1 = Inr ()" and "m_buf a1 = m_buf a" and "m_size a1 = m_size a"
    and "length h \<le> length h1"
    and "length h1 = length h \<Longrightarrow>
           h1 = h \<and> (\<exists>p. r = Inr p)
           \<and> unat (m_cursor a1) = unat (m_cursor a) + unat (aligned_size A n)"
proof -
  consider (null) "n = 0"
    | (bump) "n \<noteq> 0" "aligned_size A n \<le> m_buf a + m_size a - m_cursor a"
    | (fallback) "n \<noteq> 0" "\<not> aligned_size A n \<le> m_buf a + m_size a - m_cursor a"
    by blast
  then have "detect_outlive a1 = Inr () \<and> m_buf a1 = m_buf a \<and> m_size a1 = m_size a
      \<and> length h \<le> length h1
      \<and> (length h1 = length h \<longrightarrow>
           h1 = h \<and> (\<exists>p. r = Inr p)
           \<and> unat (m_cursor a1) = unat (m_cursor a) + unat (aligned_size A n))"
  proof cases
    case null
    with v al show ?thesis by (auto simp: allocate_null aligned_size_zero)
  next
    case bump
    have "allocate pm A a h n =
           (Inr (m_cursor a), a\<lparr>m_cursor := m_cursor a + aligned_size A n\<rparr>, h)"
      using v bump by (rule allocate_bump)
    with al have e: "r = Inr (m_cursor a)" "a1 = a\<lparr>m_cursor := m_cursor a + aligned_size A n\<rparr>"
      "h1 = h" by auto
    have "detect_outlive a1 = Inr ()" unfolding e using v bump(2) by (rule bump_keeps_valid)
    moreover have "unat (m_cursor a1) = unat (m_cursor a) + unat (aligned_size A n)"
      unfolding e using bump_cursor_unat(1) [OF v bump(2)] by simp
    ultimately show ?thesis using e by simp
  next
    case fallback
    with v al show ?thesis
      by (auto simp: allocate_fallback split: option.splits)
  qed
  then show "detect_outlive a1 = Inr ()" and "m_buf a1 = m_buf a" and "m_size a1 = m_size a"
    and "length h \<le> length h1"
    and "length h1 = length h \<Longrightarrow>
           h1 = h \<and> (\<exists>p. r = Inr p)
           \<and> unat (m_cursor a1) = unat (m_cursor a) + unat (aligned_size A n)"
    by blast+
qed

lemma run_allocations:
  assumes "is_power2 A"
  shows "detect_outlive a = Inr () \<Longrightarrow> run pm A a h (map Allocate ns) = Returns (rs, a', h') \<Longrightarrow>
     detect_outlive a' = Inr () \<and> m_buf a' = m_buf a \<and> m_size a' = m_size a
     \<and> length h \<le> length h' \<and> length rs = length ns
     \<and> (length h' = length h \<longrightarrow> h' = h \<and> (\<forall>r\<in>set rs. \<exists>p. r = Inr p)
          \<and> unat (m_cursor a') = unat (m_cursor a) + sum_list (map (\<lambda>n. unat (aligned_size A n)) ns))"
proof (induction ns arbitrary: a h rs)
  case Nil
  then show ?case by simp
next
  case (Cons n ns)
  obtain r a1 h1 where al: "allocate pm A a h n = (r, a1, h1)"
    by (cases "allocate pm A a h n") auto
  with Cons.prems(2) obtain rs1 where
    run1: "run pm A a1 h1 (map Allocate ns) = Returns (rs1, a', h')" and rs: "rs = r # rs1"
    by (auto split: outcome.splits)
  note st = allocate_step [OF Cons.prems(1) al]
  note ih = Cons.IH [OF st(1) run1]
  have mono: "length h \<le> length h'" using st(4) ih by simp
  have "h' = h \<and> (\<forall>r\<in>set rs. \<exists>p. r = Inr p)
          \<and> unat (m_cursor a') = unat (m_cursor a) + sum_list (map (\<lambda>n. unat (aligned_size A n)) (n # ns))"
    if eq: "length h' = length h"
  proof -
    have l1: "length h1 = length h" using st(4) ih eq by simp
    note s5 = st(5) [OF l1]
    have l2: "length h' = length h1" using eq l1 by simp
    with ih have "h' = h1" and "\<forall>r\<in>set rs1. \<exists>p. r = Inr p"
      and "unat (m_cursor a') = unat (m_cursor a1) + sum_list (map (\<lambda>n. unat (aligned_size A n)) ns)"
      by blast+
    with s5 rs show ?thesis by simp
  qed
  with ih st mono rs show ?case by simp
qed

lemmas arena_eval = allocate_def deallocate_def reset_def detect_outlive_def in_buf_def
  get_buf_ex_def get_buf_def has_buf_def aligned_size_def dynamic_alloc_def alloc_aligned_def
  overalign_alloc_def free_aligned_def overalign_free_def used_def platform_at_def
  platform_fail_def

lemma cursor_dvd:
  assumes "is_power2 A" and "unat A dvd unat (m_buf a)" and "unat A dvd unat (m_cursor a - m_buf a)"
  shows "unat A dvd unat (m_cursor a)"
proof -
  have "unat A dvd unat (m_buf a + (m_cursor a - m_buf a))"
    using assms by (rule dvd_word_add)
  then show ?thesis by simp
qed

lemma allocate_aligned_step:
  assumes p2: "is_power2 A" and b: "unat A dvd unat (m_buf a)"
    and c: "unat A dvd unat (m_cursor a - m_buf a)"
    and pl: "\<forall>p. pm h A n = Some p \<longrightarrow> unat A dvd unat p"
    and al: "allocate pm A a h n = (r, a1, h1)"
  shows "m_buf a1 = m_buf a" and "unat A dvd unat (m_cursor a1 - m_buf a1)"
    and "r = Inr p \<Longrightarrow> unat A dvd unat p"
proof -
  have "m_buf a1 = m_buf a \<and> unat A dvd unat (m_cursor a1 - m_buf a1)
      \<and> (\<forall>p. r = Inr p \<longrightarrow> unat A dvd unat p)"
  proof (cases "detect_outlive a")
    case (Inl e)
    with al c show ?thesis by (auto simp: allocate_outlived)
  next
    case (Inr u)
    then have v: "detect_outlive a = Inr ()" by simp
    consider (null) "n = 0"
      | (bump) "n \<noteq> 0" "aligned_size A n \<le> m_buf a + m_size a - m_cursor a"
      | (fallback) "n \<noteq> 0" "\<not> aligned_size A n \<le> m_buf a + m_size a - m_cursor a"
      by blast
    then show ?thesis
    proof cases
      case null
      with v al c show ?thesis by (auto simp: allocate_null)
    next
      case bump
      have "allocate pm A a h n =
             (Inr (m_cursor a), a\<lparr>m_cursor := m_cursor a + aligned_size A n\<rparr>, h)"
        using v bump by (rule allocate_bump)
      with al have e: "r = Inr (m_cursor a)"
        "a1 = a\<lparr>m_cursor := m_cursor a + aligned_size A n\<rparr>" by auto
      have eq: "m_cursor a1 - m_buf a1 = (m_cursor a - m_buf a) + aligned_size A n"
        by (simp add: e)
      have "unat A dvd unat (m_cursor a1 - m_buf a1)"
        unfolding eq using p2 c aligned_size_dvd [OF p2] by (rule dvd_word_add)
      with e cursor_dvd [OF p2 b c] show ?thesis by simp
    next
      case fallback
      with v al c pl show ?thesis
        by (auto simp: allocate_fallback split: option.splits)
    qed
  qed
  then show "m_buf a1 = m_buf a" and "unat A dvd unat (m_cursor a1 - m_buf a1)"
    and "r = Inr p \<Longrightarrow> unat A dvd unat p" by blast+
qed

lemma deallocate_aligned_step:
  assumes p2: "is_power2 A"
    and c: "unat A dvd unat (m_cursor a - m_buf a)"
    and de: "deallocate A a h p n = Returns (a1, h1)"
  shows "m_buf a1 = m_buf a \<and> unat A dvd unat (m_cursor a1 - m_buf a1)"
proof -
  have v: "detect_outlive a = Inr ()"
    using de by (cases "detect_outlive a") (simp_all add: deallocate_def)
  show ?thesis
  proof (cases "(m_buf a \<le> p \<and> p \<le> m_buf a + m_size a) \<and> p + aligned_size A n = m_cursor a")
    case True
    with de have e: "a1 = a\<lparr>m_cursor := p\<rparr>" by (simp add: deallocate_valid [OF v])
    from True have "p = m_cursor a - aligned_size A n" by (simp add: eq_diff_eq)
    then have eq: "m_cursor a1 - m_buf a1 = (m_cursor a - m_buf a) - aligned_size A n"
      by (simp add: e)
    have "unat A dvd unat (m_cursor a1 - m_buf a1)"
      unfolding eq using p2 c aligned_size_dvd [OF p2] by (rule dvd_word_diff)
    then show ?thesis by (simp add: e)
  next
    case False
    with de have "a1 = a" by (auto simp: deallocate_valid [OF v] split: if_splits)
    with c show ?thesis by simp
  qed
qed

lemma reset_aligned_step:
  assumes "reset a = (r, a1)" and "unat A dvd unat (m_cursor a - m_buf a)"
  shows "m_buf a1 = m_buf a \<and> unat A dvd unat (m_cursor a1 - m_buf a1)"
  using assms by (auto simp: reset_def get_buf_ex_def get_buf_def split: if_splits)

lemma alloc_zero: "alloc pm A a h 0 = (Inl InvalidArgument, a, h)"
  by (simp add: alloc_def)

lemma alloc_attached:
  assumes "n \<noteq> 0" and "has_buf a"
  shows "alloc pm A a h n =
           (case pm (h @ [Free (m_buf a)]) A n of
              None \<Rightarrow> (Inl (AllocationFailure A n), a,
                         h @ [Free (m_buf a), Posix_memalign A n None])
            | Some p \<Rightarrow>
                if p = 0
                then (Inl EmptyAlignedBuf, a, h @ [Free (m_buf a), Posix_memalign A n (Some p)])
                else (Inr (), \<lparr>m_buf = p, m_size = n, m_cursor = p\<rparr>,
                      h @ [Free (m_buf a), Posix_memalign A n (Some p)]))"
  using assms
  by (simp add: alloc_def has_buf_def get_buf_def free_aligned_def overalign_free_def
      alloc_aligned_def overalign_alloc_def set_buf_def split: option.split)

lemma alloc_unattached:
  assumes "n \<noteq> 0" and "\<not> has_buf a"
  shows "alloc pm A a h n =
           (case pm h A n of
              None \<Rightarrow> (Inl (AllocationFailure A n), a, h @ [Posix_memalign A n None])
            | Some p \<Rightarrow>
                if p = 0
                then (Inl EmptyAlignedBuf, a, h @ [Posix_memalign A n (Some p)])
                else (Inr (), \<lparr>m_buf = p, m_size = n, m_cursor = p\<rparr>,
                      h @ [Posix_memalign A n (Some p)]))"
  using assms
  by (simp add: alloc_def alloc_aligned_def overalign_alloc_def set_buf_def split: option.split)

lemma div_mult_add_pred: "0 < a \<Longrightarrow> (a * q + (a - 1)) div a = (q::nat)"
proof -
  assume pos: "0 < a"
  then have "(a - 1) div a = 0" by simp
  moreover have "(a - 1 + a * q) div a = (a - 1) div a + q"
    using pos by (subst div_mult_self2) simp_all
  ultimately show ?thesis by (simp add: add.commute)
qed

lemma aligned_size_multiple:
  assumes "is_power2 A" and "unat A dvd unat n"
  shows "aligned_size A n = n"
proof -
  have pos: "0 < unat A" using assms(1) by (rule is_power2_pos)
  from assms(2) obtain q where q: "unat n = unat A * q" by (auto elim: dvdE)
  from is_power2_dvd_word [OF assms(1)] obtain m where m: "(2::nat) ^ 64 = unat A * m"
    unfolding dvd_def by blast
  have "unat n < 2 ^ 64" by (rule unat_lt64)
  then have "unat A * q < unat A * m" using q m by simp
  then have "q < m" using pos by simp
  then have "unat A * (q + 1) \<le> unat A * m" using pos by (simp del: mult_Suc_right)
  then have "unat n + unat A \<le> 2 ^ 64" using q m by (simp add: algebra_simps)
  then have nw: "unat n + (unat A - 1) < 2 ^ 64" using pos by simp
  have "unat (aligned_size A n) = round_up (unat A) (unat n)"
    using assms(1) nw by (rule aligned_size_round_up)
  also have "\<dots> = (unat A * q + unat A - 1) div unat A * unat A"
    by (simp only: round_up_def q)
  also have "unat A * q + unat A - 1 = unat A * q + (unat A - 1)"
    using pos by simp
  also have "(unat A * q + (unat A - 1)) div unat A = q"
    using pos by (rule div_mult_add_pred)
  finally have "unat (aligned_size A n) = unat n" by (simp add: q mult.commute)
  then show ?thesis by (simp add: word_unat_eq_iff)
qed

lemma unat_mult_no_wrap:
  fixes x y :: "64 word"
  shows "unat x * unat y < 2 ^ 64 \<Longrightarrow> unat (x * y) = unat x * unat y"
  using unat_mult_lem [of x y] by simp

lemma push_back_n_within_capacity:
  "unat (v_size v) + k \<le> unat (v_capacity v) \<Longrightarrow>
     push_back_n impl pm k v st h = Returns (Inr (), v\<lparr>v_size := v_size v + of_nat k\<rparr>, st, h)"
proof (induction k arbitrary: v)
  case 0
  then show ?case by simp
next
  case (Suc k)
  have lt: "unat (v_size v) < unat (v_capacity v)" using Suc.prems by simp
  then have less: "v_size v < v_capacity v" by (simp add: word_less_nat_alt)
  have "unat (v_size v) + 1 < 2 ^ 64" using lt unat_lt64 [of "v_capacity v"] by simp
  then have u: "unat (v_size v + 1) = unat (v_size v) + 1"
    using unat_add_no_wrap [of "v_size v" 1] by simp
  let ?v = "v\<lparr>v_size := v_size v + 1\<rparr>"
  have pb: "push_back impl pm v st h = Returns (Inr (), ?v, st, h)"
    using less by (simp add: push_back_def)
  have "unat (v_size ?v) + k \<le> unat (v_capacity ?v)" using Suc.prems u by simp
  then have "push_back_n impl pm k ?v st h
      = Returns (Inr (), ?v\<lparr>v_size := v_size ?v + of_nat k\<rparr>, st, h)"
    by (rule Suc.IH)
  with pb show ?case by (simp add: algebra_simps)
qed

lemma svobuf_unwind_not_built:
  "svobuf_unwind e r v st h \<noteq> Returns (Inr sv, st', h')"
  by (simp add: svobuf_unwind_def split: outcome.split prod.split)

lemma vector_reallocate_capacity:
  "vector_reallocate pm v st h cap = Returns (Inr u, v', st', h') \<Longrightarrow> v_capacity v' = cap"
  by (auto simp: vector_reallocate_def split: prod.splits sum.splits if_splits outcome.splits)

lemma svobuf_ctor_built_capacity:
  assumes "N \<noteq> 0"
    and "svobuf_ctor impl pm sz al N r m_storage st h = Returns (Inr sv, st', h')"
  shows "N \<le> max_size impl" and "reserve_capacity impl N \<le> N"
    and "v_capacity (c sv) = reserve_capacity impl N"
proof -
  obtain r0 a0 where fa: "fixed_arena m_storage (N * sz) = (r0, a0)"
    by (cases "fixed_arena m_storage (N * sz)") auto
  from assms(2) fa obtain u where r0: "r0 = Inr u"
    by (cases r0) (simp_all add: svobuf_ctor_def)
  let ?v0 = "vector_ctor (allocator_ctor sz al al r)"
  let ?res = "reserve impl pm ?v0 (st(r := a0)) h N"
  from assms(2) fa r0 obtain u1 c1 st1 h1 where
    res: "?res = Returns (Inr u1, c1, st1, h1)" and cap: "\<not> N < v_capacity c1"
    and sv: "sv = \<lparr>sv_m_arena = r, c = c1\<rparr>"
    by (auto simp: svobuf_ctor_def svobuf_unwind_not_built
        split: outcome.splits prod.splits sum.splits if_splits)
  have ms: "\<not> N > max_size impl"
    using res by (auto simp: reserve_def)
  then show "N \<le> max_size impl" by simp
  have "\<not> N \<le> v_capacity ?v0" using assms(1) by (simp add: vector_ctor_def)
  with res ms have "vector_reallocate pm ?v0 (st(r := a0)) h (reserve_capacity impl N)
      = Returns (Inr u1, c1, st1, h1)"
    by (simp add: reserve_def)
  then have "v_capacity c1 = reserve_capacity impl N" by (rule vector_reallocate_capacity)
  with cap sv show "reserve_capacity impl N \<le> N" and "v_capacity (c sv) = reserve_capacity impl N"
    by simp_all
qed

lemma svobuf_ctor_exact:
  assumes p2: "is_power2 al" and dv: "unat al dvd unat sz" and sz: "sz \<noteq> 0" and N: "N \<noteq> 0"
    and ms: "m_storage \<noteq> 0" and fit: "unat m_storage + unat N * unat sz < 2 ^ 64"
    and mx: "N \<le> max_size impl" and ex: "reserve_capacity impl N = N"
  shows "svobuf_ctor impl pm sz al N r m_storage st h =
     Returns (Inr \<lparr>sv_m_arena = r,
                   c = \<lparr>v_alloc = allocator_ctor sz al al r, v_data = m_storage,
                        v_size = 0, v_capacity = N\<rparr>\<rparr>,
              st(r := \<lparr>m_buf = m_storage, m_size = N * sz, m_cursor = m_storage + N * sz\<rparr>), h)"
proof -
  let ?a0 = "\<lparr>m_buf = m_storage, m_size = N * sz, m_cursor = m_storage\<rparr>"
  have "unat N * unat sz < 2 ^ 64" using fit by simp
  then have um: "unat (N * sz) = unat N * unat sz" by (rule unat_mult_no_wrap)
  have "unat N \<noteq> 0" "unat sz \<noteq> 0" using N sz by (simp_all add: unat_eq_0)
  then have "unat (N * sz) \<noteq> 0" using um by simp
  then have nz: "N * sz \<noteq> 0" by (simp add: unat_eq_0)
  have fa: "fixed_arena m_storage (N * sz) = (Inr (), ?a0)"
    using ms nz by (rule fixed_arena_ok)
  have v0: "detect_outlive ?a0 = Inr ()"
    using ms nz fit by (intro fresh_valid) (simp_all add: um)
  have "unat al dvd unat (N * sz)" using dv by (simp add: um)
  with p2 have as: "aligned_size al (N * sz) = N * sz" by (rule aligned_size_multiple)
  have "allocate pm al ?a0 h (N * sz) =
      (Inr (m_cursor ?a0), ?a0\<lparr>m_cursor := m_cursor ?a0 + aligned_size al (N * sz)\<rparr>, h)"
    using v0 nz by (rule allocate_bump) (simp add: as)
  then have al: "allocate pm al ?a0 h (N * sz) =
      (Inr m_storage, \<lparr>m_buf = m_storage, m_size = N * sz, m_cursor = m_storage + N * sz\<rparr>, h)"
    by (simp add: as)
  have gt: "\<not> N > max_size impl" using mx by simp
  show ?thesis
    using N gt
    by (simp add: svobuf_ctor_def fa reserve_def vector_ctor_def ex vector_reallocate_def
        allocator_allocate_def allocator_ctor_def al)
qed

lemma set_buf_cursor_offset:
  "set_buf a0 b = (Inr (), a) \<Longrightarrow> m_buf a = buf b \<and> m_cursor a - m_buf a = 0"
  by (auto simp: set_buf_def split: if_splits)

section \<open>The claims\<close>

subsection \<open>C1: used() after a sequence of allocations\<close>

text \<open>
  C1, on a \<^verbatim>\<open>fixed_arena<64, 8>\<close>: \<^verbatim>\<open>allocate(10)\<close> and \<^verbatim>\<open>allocate(60)\<close> both succeed, the
  second one through the fallback path, which does not move the cursor. \<^verbatim>\<open>used()\<close> is 16,
  while the rounded sizes add up to 80, which is also more than the buffer holds. And
  \<^verbatim>\<open>allocate(SIZE_MAX)\<close> on the fresh arena succeeds from the buffer with \<^verbatim>\<open>used()\<close> still 0,
  while \<open>SIZE_MAX\<close> rounded up to a multiple of 8 is \<open>2 ^ 64\<close>.
\<close>

theorem used_differs_after_fallback:
  "run (platform_at 8192) 8 \<lparr>m_buf = 4096, m_size = 64, m_cursor = 4096\<rparr> []
       [Allocate 10, Allocate 60]
     = Returns ([Inr 4096, Inr 8192], \<lparr>m_buf = 4096, m_size = 64, m_cursor = 4112\<rparr>,
                [Posix_memalign 8 60 (Some 8192)])
   \<and> used \<lparr>m_buf = 4096, m_size = 64, m_cursor = 4112\<rparr> = Inr 16
   \<and> round_up 8 10 + round_up 8 60 = 80
   \<and> run platform_fail 8 \<lparr>m_buf = 4096, m_size = 64, m_cursor = 4096\<rparr> []
       [Allocate 18446744073709551615]
     = Returns ([Inr 4096], \<lparr>m_buf = 4096, m_size = 64, m_cursor = 4096\<rparr>, [])
   \<and> used \<lparr>m_buf = 4096, m_size = 64, m_cursor = 4096\<rparr> = Inr 0
   \<and> round_up 8 (unat (18446744073709551615 :: 64 word)) = 18446744073709551616"
  by (simp add: arena_eval round_up_def)

text \<open>
  C1, amended to the allocations served from the buffer. For every arena with an attached
  buffer and its cursor within the buffer, and every sequence of \<^verbatim>\<open>allocate\<close> calls with
  no \<^verbatim>\<open>deallocate\<close> in between: \<^verbatim>\<open>used()\<close> never exceeds the size of the buffer. When
  none of the calls reaches the heap (\<open>h' = h\<close>) and every byte count is at most
  \<open>SIZE_MAX - (A - 1)\<close>, every call succeeds and \<^verbatim>\<open>used()\<close> has grown by the sum of the
  byte counts, each rounded up to the nearest multiple of the alignment; from a fresh or
  reset arena, where \<^verbatim>\<open>used()\<close> is 0, it equals that sum.
\<close>

theorem used_after_allocations:
  assumes "is_power2 A"
    and "has_buf a" and "m_buf a \<le> m_cursor a" and "m_cursor a \<le> m_buf a + m_size a"
    and "run pm A a h (map Allocate ns) = Returns (rs, a', h')"
  shows "used a = Inr (m_cursor a - m_buf a) \<and> used a' = Inr (m_cursor a' - m_buf a')
       \<and> m_buf a' = m_buf a \<and> m_size a' = m_size a
       \<and> m_cursor a' - m_buf a' \<le> m_size a'
       \<and> (h' = h \<longrightarrow> (\<forall>n\<in>set ns. unat n \<le> 2 ^ 64 - 1 - (unat A - 1)) \<longrightarrow>
            (\<forall>r\<in>set rs. \<exists>p. r = Inr p)
            \<and> unat (m_cursor a' - m_buf a')
                = unat (m_cursor a - m_buf a) + sum_list (map (\<lambda>n. round_up (unat A) (unat n)) ns))"
proof -
  have v: "detect_outlive a = Inr ()" using assms(2-4) by (simp add: detect_outlive_ok)
  note ra = run_allocations [OF assms(1) v assms(5)]
  then have v': "detect_outlive a' = Inr ()" by simp
  from used_unat [OF v] have u: "used a = Inr (m_cursor a - m_buf a)"
    and uu: "unat (m_cursor a - m_buf a) = unat (m_cursor a) - unat (m_buf a)"
    by (auto simp: used_def get_buf_ex_def get_buf_def split: if_splits)
  from used_unat [OF v'] have u': "used a' = Inr (m_cursor a' - m_buf a')"
    and uu': "unat (m_cursor a' - m_buf a') = unat (m_cursor a') - unat (m_buf a')"
    and le: "m_cursor a' - m_buf a' \<le> m_size a'"
    by (auto simp: used_def get_buf_ex_def get_buf_def split: if_splits)
  have main: "(\<forall>r\<in>set rs. \<exists>p. r = Inr p)
            \<and> unat (m_cursor a' - m_buf a')
                = unat (m_cursor a - m_buf a) + sum_list (map (\<lambda>n. round_up (unat A) (unat n)) ns)"
    if "h' = h" and small: "\<forall>n\<in>set ns. unat n \<le> 2 ^ 64 - 1 - (unat A - 1)"
  proof -
    from ra that(1) have ok: "\<forall>r\<in>set rs. \<exists>p. r = Inr p"
      and c: "unat (m_cursor a') = unat (m_cursor a) + sum_list (map (\<lambda>n. unat (aligned_size A n)) ns)"
      by simp_all
    have "unat (aligned_size A n) = round_up (unat A) (unat n)" if "n \<in> set ns" for n
    proof -
      have "unat n \<le> 2 ^ 64 - 1 - (unat A - 1)" using small that by blast
      moreover have "unat A < 2 ^ 64" by (rule unat_lt64)
      ultimately have "unat n + (unat A - 1) < 2 ^ 64" by simp
      with assms(1) show ?thesis by (rule aligned_size_round_up)
    qed
    then have "map (\<lambda>n. unat (aligned_size A n)) ns = map (\<lambda>n. round_up (unat A) (unat n)) ns"
      by simp
    with c have c': "unat (m_cursor a') = unat (m_cursor a) + sum_list (map (\<lambda>n. round_up (unat A) (unat n)) ns)"
      by simp
    have "unat (m_buf a) \<le> unat (m_cursor a)" using v by (simp add: detect_outlive_unat)
    with c' uu uu' ra have "unat (m_cursor a' - m_buf a')
                = unat (m_cursor a - m_buf a) + sum_list (map (\<lambda>n. round_up (unat A) (unat n)) ns)"
      by simp
    with ok show ?thesis by simp
  qed
  from u u' le ra main show ?thesis by simp
qed

theorem used_after_allocations_witness:
  "run platform_fail 8 \<lparr>m_buf = 4096, m_size = 64, m_cursor = 4096\<rparr> []
       (map Allocate [10, 24, 0])
     = Returns ([Inr 4096, Inr 4112, Inr 0], \<lparr>m_buf = 4096, m_size = 64, m_cursor = 4136\<rparr>, [])
   \<and> used \<lparr>m_buf = 4096, m_size = 64, m_cursor = 4136\<rparr> = Inr 40
   \<and> (40::64 word) \<le> 64
   \<and> unat (40::64 word) = 0 + sum_list (map (\<lambda>n. round_up 8 (unat n)) [10, 24, 0::64 word])"
proof -
  let ?a = "\<lparr>m_buf = 4096, m_size = 64, m_cursor = 4096\<rparr>"
  let ?a' = "\<lparr>m_buf = 4096, m_size = 64, m_cursor = 4136\<rparr>"
  have p: "is_power2 8" by (simp add: is_power2_def)
  have hb: "has_buf ?a" by (simp add: has_buf_def)
  have r: "m_buf ?a \<le> m_cursor ?a" "m_cursor ?a \<le> m_buf ?a + m_size ?a" by simp_all
  have run: "run platform_fail 8 ?a [] (map Allocate [10, 24, 0])
     = Returns ([Inr 4096, Inr 4112, Inr 0], ?a', [])"
    by (simp add: arena_eval)
  have small: "\<forall>n\<in>set [10, 24, 0::64 word]. unat n \<le> 2 ^ 64 - 1 - (unat (8::64 word) - 1)"
    by simp
  from used_after_allocations [OF p hb r run] small run
  show ?thesis by simp
qed

subsection \<open>C2: the 64-byte scenario\<close>

text \<open>
  C2. A \<^verbatim>\<open>fixed_arena<64, 8>\<close> whose inline array is at \<open>m_storage\<close> (not null, and ending
  below the top of the address space, as every C++ object does): construction attaches the
  array; \<^verbatim>\<open>allocate(10)\<close> returns the buffer start, offset 0, and \<^verbatim>\<open>used()\<close> becomes 16.
  The following \<^verbatim>\<open>allocate(60)\<close> needs \<open>aligned_size 8 60 = 64\<close> bytes with 48 remaining, so
  it takes the fallback path: it calls \<^verbatim>\<open>posix_memalign(8, 60)\<close>, returns the block \<open>p\<close>
  that the platform hands out and leaves \<^verbatim>\<open>used()\<close> at 16. The platform's block does not
  overlap the live array (the contract of \<^verbatim>\<open>posix_memalign\<close>), so \<open>p\<close> is outside
  \<open>[m_storage, m_storage + 64)\<close>.
\<close>

theorem fixed_arena_64_scenario:
  assumes "m_storage \<noteq> 0" and "unat m_storage + 64 < 2 ^ 64"
    and "pm h 8 60 = Some p"
    and "unat p + 60 \<le> unat m_storage \<or> unat m_storage + 64 \<le> unat p"
    and "fixed_arena m_storage 64 = (r0, a0)"
    and "allocate pm 8 a0 h 10 = (r1, a1, h1)"
    and "allocate pm 8 a1 h1 60 = (r2, a2, h2)"
  shows "r0 = Inr () \<and> used a0 = Inr 0
       \<and> r1 = Inr m_storage \<and> used a1 = Inr 16 \<and> h1 = h
       \<and> aligned_size 8 60 = 64 \<and> m_buf a1 + m_size a1 - m_cursor a1 = 48
       \<and> r2 = Inr p \<and> h2 = h @ [Posix_memalign 8 60 (Some p)] \<and> used a2 = Inr 16
       \<and> \<not> (m_storage \<le> p \<and> p < m_storage + 64)"
proof -
  let ?a0 = "\<lparr>m_buf = m_storage, m_size = 64, m_cursor = m_storage\<rparr>"
  let ?a1 = "\<lparr>m_buf = m_storage, m_size = 64, m_cursor = m_storage + 16\<rparr>"
  have a0: "r0 = Inr ()" "a0 = ?a0"
    using assms(5) fixed_arena_ok [OF assms(1), of 64] by simp_all
  have v0: "detect_outlive ?a0 = Inr ()"
    using assms(1,2) by (intro fresh_valid) simp_all
  have s10: "aligned_size 8 10 = 16" and s60: "aligned_size 8 60 = 64"
    by (simp_all add: aligned_size_def)
  have "allocate pm 8 ?a0 h 10 = (Inr (m_cursor ?a0), ?a0\<lparr>m_cursor := m_cursor ?a0 + aligned_size 8 10\<rparr>, h)"
    using v0 by (rule allocate_bump) (simp_all add: s10)
  with assms(6) a0 have a1: "r1 = Inr m_storage" "a1 = ?a1" "h1 = h"
    by (simp_all add: s10)
  have v1: "detect_outlive ?a1 = Inr ()"
    using bump_keeps_valid [OF v0, of 16] by simp
  have rem: "m_buf ?a1 + m_size ?a1 - m_cursor ?a1 = 48" by simp
  have "allocate pm 8 ?a1 h 60 =
          (case pm h 8 60 of
              Some p \<Rightarrow> (Inr p, ?a1, h @ [Posix_memalign 8 60 (Some p)])
            | None \<Rightarrow> (Inl (AllocationFailure 8 60), ?a1, h @ [Posix_memalign 8 60 None]))"
    using v1 by (rule allocate_fallback) (simp_all add: s60)
  with assms(3,7) a1 have a2: "r2 = Inr p" "a2 = ?a1" "h2 = h @ [Posix_memalign 8 60 (Some p)]"
    by simp_all
  have u0: "used ?a0 = Inr 0" and u1: "used ?a1 = Inr 16"
    using assms(1) by (simp_all add: used_def get_buf_ex_def get_buf_def has_buf_def)
  have e: "unat (m_storage + 64) = unat m_storage + 64"
    using unat_add_no_wrap [of m_storage 64] assms(2) by simp
  have out: "\<not> (m_storage \<le> p \<and> p < m_storage + 64)"
    using assms(4) e by (auto simp: word_le_nat_alt word_less_nat_alt)
  show ?thesis
    using a0 a1 a2 u0 u1 s60 out by simp
qed

theorem fixed_arena_64_scenario_witness:
  "fixed_arena 4096 64 = (Inr (), \<lparr>m_buf = 4096, m_size = 64, m_cursor = 4096\<rparr>)
   \<and> allocate (platform_at 8192) 8 \<lparr>m_buf = 4096, m_size = 64, m_cursor = 4096\<rparr> [] 10
       = (Inr 4096, \<lparr>m_buf = 4096, m_size = 64, m_cursor = 4112\<rparr>, [])
   \<and> allocate (platform_at 8192) 8 \<lparr>m_buf = 4096, m_size = 64, m_cursor = 4112\<rparr> [] 60
       = (Inr 8192, \<lparr>m_buf = 4096, m_size = 64, m_cursor = 4112\<rparr>,
          [Posix_memalign 8 60 (Some 8192)])
   \<and> used \<lparr>m_buf = 4096, m_size = 64, m_cursor = 4112\<rparr> = Inr 16
   \<and> \<not> ((4096::64 word) \<le> 8192 \<and> (8192::64 word) < 4096 + 64)"
proof -
  have c0: "fixed_arena 4096 64 = (Inr (), \<lparr>m_buf = 4096, m_size = 64, m_cursor = 4096\<rparr>)"
    by (simp add: fixed_arena_def set_buf_def arena_interf_ctor_def)
  have c1: "allocate (platform_at 8192) 8 \<lparr>m_buf = 4096, m_size = 64, m_cursor = 4096\<rparr> [] 10
       = (Inr 4096, \<lparr>m_buf = 4096, m_size = 64, m_cursor = 4112\<rparr>, [])"
    by (simp add: allocate_def detect_outlive_def in_buf_def get_buf_ex_def get_buf_def
        has_buf_def aligned_size_def)
  have c2: "allocate (platform_at 8192) 8 \<lparr>m_buf = 4096, m_size = 64, m_cursor = 4112\<rparr> [] 60
       = (Inr 8192, \<lparr>m_buf = 4096, m_size = 64, m_cursor = 4112\<rparr>,
          [Posix_memalign 8 60 (Some 8192)])"
    by (simp add: allocate_def detect_outlive_def in_buf_def get_buf_ex_def get_buf_def
        has_buf_def aligned_size_def dynamic_alloc_def alloc_aligned_def overalign_alloc_def
        platform_at_def)
  have p: "platform_at 8192 [] 8 60 = Some 8192" by (simp add: platform_at_def)
  have nz: "(4096::64 word) \<noteq> 0" by simp
  have nw: "unat (4096::64 word) + 64 < 2 ^ 64" by simp
  have d: "unat (8192::64 word) + 60 \<le> unat (4096::64 word) \<or> unat (4096::64 word) + 64 \<le> unat (8192::64 word)"
    by simp
  from fixed_arena_64_scenario [OF nz nw p d c0 c1 c2] c0 c1 c2
  show ?thesis by simp
qed

subsection \<open>C3: deallocate reclaims the top block only\<close>

text \<open>
  C3. For every arena with an attached buffer and its cursor within the buffer:
  \<^item> \<^verbatim>\<open>deallocate(p, n)\<close> with \<open>p\<close> inside the buffer and \<open>p + aligned_size A n\<close> equal to
    the cursor moves the cursor back to \<open>p\<close>, so that \<^verbatim>\<open>used()\<close> is \<open>p - m_buf\<close>;
  \<^item> when \<^verbatim>\<open>allocate(n)\<close> has just been served from the buffer (it returned \<open>q\<close> without a
    call to the heap), \<^verbatim>\<open>deallocate(q, n)\<close> gives back the arena as it was immediately
    before that allocation, hence the same \<^verbatim>\<open>used()\<close>;
  \<^item> \<^verbatim>\<open>deallocate\<close> of any other pointer inside the buffer changes neither the arena
    nor the heap.
\<close>

theorem deallocate_lifo:
  assumes "has_buf a" and "m_buf a \<le> m_cursor a" and "m_cursor a \<le> m_buf a + m_size a"
  shows "(in_buf a p = Inr True \<longrightarrow> p + aligned_size A n = m_cursor a \<longrightarrow>
            deallocate A a h p n = Returns (a\<lparr>m_cursor := p\<rparr>, h)
            \<and> used (a\<lparr>m_cursor := p\<rparr>) = Inr (p - m_buf a))
       \<and> (allocate pm A a h n = (Inr q, a', h) \<longrightarrow>
            deallocate A a' h q n = Returns (a, h))
       \<and> (in_buf a p = Inr True \<longrightarrow> p + aligned_size A n \<noteq> m_cursor a \<longrightarrow>
            deallocate A a h p n = Returns (a, h))"
proof -
  have v: "detect_outlive a = Inr ()" using assms by (simp add: detect_outlive_ok)
  have c1: "deallocate A a h p n = Returns (a\<lparr>m_cursor := p\<rparr>, h)
            \<and> used (a\<lparr>m_cursor := p\<rparr>) = Inr (p - m_buf a)"
    if "in_buf a p = Inr True" and "p + aligned_size A n = m_cursor a"
    using that assms(1)
    by (simp add: deallocate_valid [OF v] in_buf_has_buf used_def get_buf_ex_def get_buf_def
        has_buf_def)
  have c3: "deallocate A a h p n = Returns (a, h)"
    if "in_buf a p = Inr True" and "p + aligned_size A n \<noteq> m_cursor a"
    using that assms(1) by (simp add: deallocate_valid [OF v] in_buf_has_buf)
  have c2: "deallocate A a' h q n = Returns (a, h)"
    if al: "allocate pm A a h n = (Inr q, a', h)"
  proof (cases "n = 0")
    case True
    with al v have "q = 0" and "a' = a" by (simp_all add: allocate_null)
    moreover have "\<not> m_buf a \<le> 0" using assms(1) by (simp add: has_buf_def)
    ultimately show ?thesis
      by (simp add: deallocate_valid [OF v] free_defined_def free_aligned_def)
  next
    case nz: False
    show ?thesis
    proof (cases "aligned_size A n \<le> m_buf a + m_size a - m_cursor a")
      case fit: True
      let ?a' = "a\<lparr>m_cursor := m_cursor a + aligned_size A n\<rparr>"
      have "allocate pm A a h n = (Inr (m_cursor a), ?a', h)"
        using v nz fit by (rule allocate_bump)
      with al have q: "q = m_cursor a" and a': "a' = ?a'" by auto
      have v': "detect_outlive ?a' = Inr ()" using v fit by (rule bump_keeps_valid)
      have "deallocate A ?a' h (m_cursor a) n = Returns (?a'\<lparr>m_cursor := m_cursor a\<rparr>, h)"
        using assms by (simp add: deallocate_valid [OF v'])
      then show ?thesis by (simp add: q a')
    next
      case False
      with v nz have "snd (snd (allocate pm A a h n)) \<noteq> h"
        by (simp add: allocate_fallback split: option.split)
      with al show ?thesis by simp
    qed
  qed
  from c1 c2 c3 show ?thesis by simp
qed

theorem deallocate_lifo_witness:
  "has_buf \<lparr>m_buf = 4096, m_size = 64, m_cursor = 4112\<rparr>
   \<and> deallocate 8 \<lparr>m_buf = 4096, m_size = 64, m_cursor = 4112\<rparr> [] 4096 10
       = Returns (\<lparr>m_buf = 4096, m_size = 64, m_cursor = 4096\<rparr>, [])
   \<and> allocate platform_fail 8 \<lparr>m_buf = 4096, m_size = 64, m_cursor = 4112\<rparr> [] 10
       = (Inr 4112, \<lparr>m_buf = 4096, m_size = 64, m_cursor = 4128\<rparr>, [])
   \<and> deallocate 8 \<lparr>m_buf = 4096, m_size = 64, m_cursor = 4128\<rparr> [] 4112 10
       = Returns (\<lparr>m_buf = 4096, m_size = 64, m_cursor = 4112\<rparr>, [])
   \<and> deallocate 8 \<lparr>m_buf = 4096, m_size = 64, m_cursor = 4128\<rparr> [] 4096 10
       = Returns (\<lparr>m_buf = 4096, m_size = 64, m_cursor = 4128\<rparr>, [])"
proof -
  let ?a = "\<lparr>m_buf = 4096, m_size = 64, m_cursor = 4112\<rparr>"
  let ?b = "\<lparr>m_buf = 4096, m_size = 64, m_cursor = 4128\<rparr>"
  have hb: "has_buf ?a" "has_buf ?b" by (simp_all add: has_buf_def)
  have r: "m_buf ?a \<le> m_cursor ?a" "m_cursor ?a \<le> m_buf ?a + m_size ?a"
    "m_buf ?b \<le> m_cursor ?b" "m_cursor ?b \<le> m_buf ?b + m_size ?b" by simp_all
  have i: "in_buf ?a 4096 = Inr True" "in_buf ?b 4096 = Inr True"
    by (simp_all add: in_buf_def get_buf_ex_def get_buf_def has_buf_def)
  have s: "aligned_size 8 10 = 16" by (simp add: aligned_size_def)
  have al: "allocate platform_fail 8 ?a [] 10 = (Inr 4112, ?b, [])"
    by (simp add: allocate_def detect_outlive_def in_buf_def get_buf_ex_def get_buf_def
        has_buf_def aligned_size_def)
  from deallocate_lifo [OF hb(1) r(1,2), where p = 4096 and A = 8 and n = 10 and h = "[]"
      and pm = platform_fail and q = 4112 and a' = ?b]
    deallocate_lifo [OF hb(2) r(3,4), where p = 4096 and A = 8 and n = 10 and h = "[]"]
  show ?thesis using hb i s al by simp
qed

subsection \<open>C4: deallocate and errors\<close>

text \<open>
  C4, on a \<^verbatim>\<open>dynamic_arena\<close> built with \<open>byte_count = 0\<close>, which has no buffer, and on an
  arena whose cursor is outside its buffer: \<^verbatim>\<open>in_buf\<close> and \<^verbatim>\<open>detect_outlive\<close> throw inside
  the \<^verbatim>\<open>noexcept\<close> function \<^verbatim>\<open>deallocate\<close>, and the process is terminated.
\<close>

theorem deallocate_terminates_without_buffer:
  "dynamic_arena platform_fail 8 [] 0 = (Inr (), arena_interf_ctor, [])
   \<and> deallocate 8 arena_interf_ctor [] 0 0 = Terminate NoValidBuffer
   \<and> deallocate 8 \<lparr>m_buf = 4096, m_size = 64, m_cursor = 8192\<rparr> [] 4096 16
       = Terminate LifetimeViolation"
  by (simp add: dynamic_arena_def deallocate_def detect_outlive_def in_buf_def get_buf_ex_def
      get_buf_def has_buf_def arena_interf_ctor_def)

text \<open>
  C4, amended. No exception leaves \<^verbatim>\<open>deallocate\<close>. When no buffer is attached, or when the
  cursor lies outside the buffer, the exception thrown inside it ("no valid buffer attached
  to arena_interf", "allocator has outlived arena_interf") reaches the \<^verbatim>\<open>noexcept\<close>
  boundary and the process is terminated. When the arena has a buffer attached and its
  cursor lies within the buffer, \<^verbatim>\<open>deallocate\<close> returns normally for every byte count and
  every pointer that lies within the buffer, is null, or is a live block of the heap
  (handed out by \<^verbatim>\<open>posix_memalign\<close> and not freed since, as the block of a fallback
  allocation is): the arena is untouched for a pointer outside the buffer, and the live
  block is freed. For any other pointer the call \<^verbatim>\<open>free(pointer)\<close> that it makes is undefined
  behaviour.
\<close>

theorem deallocate_outcome:
  "(\<not> has_buf a \<longrightarrow> deallocate A a h p n = Terminate NoValidBuffer)
   \<and> (has_buf a \<and> \<not> (m_buf a \<le> m_cursor a \<and> m_cursor a \<le> m_buf a + m_size a) \<longrightarrow>
        deallocate A a h p n = Terminate LifetimeViolation)
   \<and> (has_buf a \<and> m_buf a \<le> m_cursor a \<and> m_cursor a \<le> m_buf a + m_size a \<longrightarrow>
        (in_buf a p = Inr True \<longrightarrow>
           deallocate A a h p n
             = Returns (if p + aligned_size A n = m_cursor a then a\<lparr>m_cursor := p\<rparr> else a, h))
        \<and> (p = 0 \<longrightarrow> deallocate A a h p n = Returns (a, h))
        \<and> (in_buf a p = Inr False \<longrightarrow> p \<noteq> 0 \<longrightarrow> live h p \<longrightarrow>
             deallocate A a h p n = Returns (a, h @ [Free p]))
        \<and> (in_buf a p = Inr False \<longrightarrow> p \<noteq> 0 \<longrightarrow> \<not> live h p \<longrightarrow>
             deallocate A a h p n = Undefined))
   \<and> (allocate pm A a h n = (Inr q, a', h') \<longrightarrow> h' \<noteq> h \<longrightarrow> live h' q \<and> a' = a)"
proof -
  have c1: "deallocate A a h p n = Terminate NoValidBuffer" if "\<not> has_buf a"
    using that by (simp add: deallocate_def detect_outlive_cases)
  have c2: "deallocate A a h p n = Terminate LifetimeViolation"
    if "has_buf a \<and> \<not> (m_buf a \<le> m_cursor a \<and> m_cursor a \<le> m_buf a + m_size a)"
  proof -
    from that have "detect_outlive a = Inl LifetimeViolation"
      by (simp add: detect_outlive_cases)
    then show ?thesis by (simp add: deallocate_def)
  qed
  have c3: "(in_buf a p = Inr True \<longrightarrow>
           deallocate A a h p n
             = Returns (if p + aligned_size A n = m_cursor a then a\<lparr>m_cursor := p\<rparr> else a, h))
        \<and> (p = 0 \<longrightarrow> deallocate A a h p n = Returns (a, h))
        \<and> (in_buf a p = Inr False \<longrightarrow> p \<noteq> 0 \<longrightarrow> live h p \<longrightarrow>
             deallocate A a h p n = Returns (a, h @ [Free p]))
        \<and> (in_buf a p = Inr False \<longrightarrow> p \<noteq> 0 \<longrightarrow> \<not> live h p \<longrightarrow>
             deallocate A a h p n = Undefined)"
    if ok: "has_buf a \<and> m_buf a \<le> m_cursor a \<and> m_cursor a \<le> m_buf a + m_size a"
  proof -
    from ok have v: "detect_outlive a = Inr ()" and hb: "has_buf a"
      by (simp_all add: detect_outlive_ok)
    have inside: "deallocate A a h p n
             = Returns (if p + aligned_size A n = m_cursor a then a\<lparr>m_cursor := p\<rparr> else a, h)"
      if "in_buf a p = Inr True"
      using that by (simp add: deallocate_valid [OF v] in_buf_has_buf [OF hb])
    have null: "deallocate A a h p n = Returns (a, h)" if "p = 0"
    proof -
      have "\<not> m_buf a \<le> 0" using hb by (simp add: has_buf_def)
      with that show ?thesis
        by (simp add: deallocate_valid [OF v] free_defined_def free_aligned_def)
    qed
    have alive: "deallocate A a h p n = Returns (a, h @ [Free p])"
      if "in_buf a p = Inr False" and "p \<noteq> 0" and "live h p"
      using that
      by (simp add: deallocate_valid [OF v] in_buf_has_buf [OF hb] free_defined_def
          free_aligned_def overalign_free_def)
    have wild: "deallocate A a h p n = Undefined"
      if "in_buf a p = Inr False" and "p \<noteq> 0" and "\<not> live h p"
      using that
      by (simp add: deallocate_valid [OF v] in_buf_has_buf [OF hb] free_defined_def)
    from inside null alive wild show ?thesis by blast
  qed
  have c4: "live h' q \<and> a' = a" if al: "allocate pm A a h n = (Inr q, a', h')" and ne: "h' \<noteq> h"
  proof (cases "detect_outlive a")
    case (Inl e)
    with al show ?thesis by (simp add: allocate_outlived)
  next
    case (Inr u)
    then have v: "detect_outlive a = Inr ()" by simp
    show ?thesis
    proof (cases "n \<noteq> 0 \<and> \<not> aligned_size A n \<le> m_buf a + m_size a - m_cursor a")
      case True
      with v al show ?thesis
        by (auto simp: allocate_fallback live_snoc_memalign split: option.splits)
    next
      case False
      with v al ne show ?thesis
        by (cases "n = 0") (auto simp: allocate_null allocate_bump)
    qed
  qed
  from c1 c2 c3 c4 show ?thesis by blast
qed

theorem deallocate_outcome_witness:
  "allocate (platform_at 8192) 8 \<lparr>m_buf = 4096, m_size = 64, m_cursor = 4112\<rparr> [] 60
     = (Inr 8192, \<lparr>m_buf = 4096, m_size = 64, m_cursor = 4112\<rparr>,
        [Posix_memalign 8 60 (Some 8192)])
   \<and> live [Posix_memalign 8 60 (Some 8192)] 8192
   \<and> deallocate 8 \<lparr>m_buf = 4096, m_size = 64, m_cursor = 4112\<rparr>
        [Posix_memalign 8 60 (Some 8192)] 8192 60
       = Returns (\<lparr>m_buf = 4096, m_size = 64, m_cursor = 4112\<rparr>,
                  [Posix_memalign 8 60 (Some 8192), Free 8192])
   \<and> deallocate 8 \<lparr>m_buf = 4096, m_size = 64, m_cursor = 4112\<rparr>
        [Posix_memalign 8 60 (Some 8192), Free 8192] 8192 60
       = Undefined
   \<and> deallocate 8 \<lparr>m_buf = 4096, m_size = 64, m_cursor = 4112\<rparr> [] 8192 60 = Undefined
   \<and> deallocate 8 \<lparr>m_buf = 4096, m_size = 64, m_cursor = 4112\<rparr> [] 0 0
       = Returns (\<lparr>m_buf = 4096, m_size = 64, m_cursor = 4112\<rparr>, [])
   \<and> deallocate 8 \<lparr>m_buf = 4096, m_size = 64, m_cursor = 4112\<rparr> [] 4096 10
       = Returns (\<lparr>m_buf = 4096, m_size = 64, m_cursor = 4096\<rparr>, [])
   \<and> deallocate 8 \<lparr>m_buf = 0, m_size = 0, m_cursor = 0\<rparr> [] 8192 60 = Terminate NoValidBuffer
   \<and> deallocate 8 \<lparr>m_buf = 4096, m_size = 64, m_cursor = 8192\<rparr> [] 8192 60
       = Terminate LifetimeViolation"
proof -
  let ?a = "\<lparr>m_buf = 4096, m_size = 64, m_cursor = 4112\<rparr>"
  let ?h = "[Posix_memalign 8 60 (Some 8192)]"
  have hb: "has_buf ?a" by (simp add: has_buf_def)
  have r: "m_buf ?a \<le> m_cursor ?a \<and> m_cursor ?a \<le> m_buf ?a + m_size ?a" by simp
  have out: "in_buf ?a 8192 = Inr False" and ins: "in_buf ?a 4096 = Inr True"
    by (simp_all add: in_buf_def get_buf_ex_def get_buf_def has_buf_def)
  have nz: "(8192::64 word) \<noteq> 0" by simp
  have l1: "live ?h 8192" and l2: "\<not> live (?h @ [Free 8192]) 8192" and l3: "\<not> live [] 8192"
    by (simp_all add: live_def)
  have al: "allocate (platform_at 8192) 8 ?a [] 60 = (Inr 8192, ?a, ?h)"
    by (simp add: arena_eval)
  have s: "aligned_size 8 10 = 16" by (simp add: aligned_size_def)
  from deallocate_outcome [where a = ?a and A = 8 and h = ?h and p = 8192 and n = 60]
    deallocate_outcome [where a = ?a and A = 8 and h = "?h @ [Free 8192]" and p = 8192 and n = 60]
    deallocate_outcome [where a = ?a and A = 8 and h = "[]" and p = 8192 and n = 60
      and pm = "platform_at 8192" and q = 8192 and a' = ?a and h' = ?h]
    deallocate_outcome [where a = ?a and A = 8 and h = "[]" and p = 0 and n = 0]
    deallocate_outcome [where a = ?a and A = 8 and h = "[]" and p = 4096 and n = 10]
    deallocate_outcome [where a = "\<lparr>m_buf = 0, m_size = 0, m_cursor = 0\<rparr>" and A = 8
      and h = "[]" and p = 8192 and n = 60]
    deallocate_outcome [where a = "\<lparr>m_buf = 4096, m_size = 64, m_cursor = 8192\<rparr>" and A = 8
      and h = "[]" and p = 8192 and n = 60]
  show ?thesis using hb r out ins nz l1 l2 l3 al s by (simp add: has_buf_def)
qed

subsection \<open>C5: returned pointers are multiples of the alignment\<close>

text \<open>
  C5. Let the buffer of an arena start at a multiple of the alignment \<open>A\<close>, let the cursor be
  at a multiple of \<open>A\<close> from the buffer start (as it is after \<^verbatim>\<open>set_buf\<close> or \<^verbatim>\<open>reset\<close>), and
  let \<^verbatim>\<open>posix_memalign\<close> honour the alignment it is asked for. Then after every sequence of
  \<^verbatim>\<open>allocate\<close>, \<^verbatim>\<open>deallocate\<close> and \<^verbatim>\<open>reset\<close> calls, every pointer that \<^verbatim>\<open>allocate\<close> returned,
  from the buffer or from the heap, is a multiple of \<open>A\<close> (the null pointer of
  \<^verbatim>\<open>allocate(0)\<close> trivially so), and the cursor's offset from the buffer start, and the
  cursor itself, are multiples of \<open>A\<close>.
\<close>

theorem pointers_aligned:
  assumes "is_power2 A" and "unat A dvd unat (m_buf a)"
    and "unat A dvd unat (m_cursor a - m_buf a)"
    and "\<forall>h n p. pm h A n = Some p \<longrightarrow> unat A dvd unat p"
    and "run pm A a h cs = Returns (rs, a', h')"
  shows "(\<forall>p. Inr p \<in> set rs \<longrightarrow> unat A dvd unat p)
       \<and> m_buf a' = m_buf a \<and> unat A dvd unat (m_cursor a' - m_buf a')
       \<and> unat A dvd unat (m_cursor a')"
proof -
  have inv: "(\<forall>p. Inr p \<in> set rs \<longrightarrow> unat A dvd unat p)
       \<and> m_buf a' = m_buf a \<and> unat A dvd unat (m_cursor a' - m_buf a')"
    using assms(2,3,5)
  proof (induction cs arbitrary: a h rs)
    case Nil
    then show ?case by simp
  next
    case (Cons c cs)
    show ?case
    proof (cases c)
      case (Allocate n)
      obtain r a1 h1 where al: "allocate pm A a h n = (r, a1, h1)"
        by (cases "allocate pm A a h n") auto
      with Cons.prems(3) Allocate obtain rs1 where
        run1: "run pm A a1 h1 cs = Returns (rs1, a', h')" and rs: "rs = r # rs1"
        by (auto split: outcome.splits)
      have pl: "\<forall>p. pm h A n = Some p \<longrightarrow> unat A dvd unat p" using assms(4) by blast
      note st = allocate_aligned_step [OF assms(1) Cons.prems(1,2) pl al]
      have b1: "unat A dvd unat (m_buf a1)" using st(1) Cons.prems(1) by simp
      note ih = Cons.IH [OF b1 st(2) run1]
      with st rs show ?thesis by auto
    next
      case (Deallocate p n)
      with Cons.prems(3) obtain a1 h1 where de: "deallocate A a h p n = Returns (a1, h1)"
        and run1: "run pm A a1 h1 cs = Returns (rs, a', h')"
        by (auto split: outcome.splits)
      from deallocate_aligned_step [OF assms(1) Cons.prems(2) de]
      have s1: "m_buf a1 = m_buf a" and s2: "unat A dvd unat (m_cursor a1 - m_buf a1)"
        by blast+
      have b1: "unat A dvd unat (m_buf a1)" using s1 Cons.prems(1) by simp
      from Cons.IH [OF b1 s2 run1] s1 show ?thesis by auto
    next
      case Reset
      obtain r a1 where re: "reset a = (r, a1)" by (cases "reset a") auto
      with Cons.prems(3) Reset have run1: "run pm A a1 h cs = Returns (rs, a', h')" by simp
      from reset_aligned_step [OF re Cons.prems(2)]
      have s1: "m_buf a1 = m_buf a" and s2: "unat A dvd unat (m_cursor a1 - m_buf a1)"
        by blast+
      have b1: "unat A dvd unat (m_buf a1)" using s1 Cons.prems(1) by simp
      from Cons.IH [OF b1 s2 run1] s1 show ?thesis by auto
    qed
  qed
  moreover have "unat A dvd unat (m_cursor a')"
  proof (rule cursor_dvd [OF assms(1)])
    show "unat A dvd unat (m_buf a')" using inv assms(2) by auto
    show "unat A dvd unat (m_cursor a' - m_buf a')" using inv by blast
  qed
  ultimately show ?thesis by blast
qed

theorem pointers_aligned_witness:
  "is_power2 8 \<and> (8::nat) dvd 4096
   \<and> run (platform_at 8192) 8 \<lparr>m_buf = 4096, m_size = 64, m_cursor = 4096\<rparr> []
       [Allocate 10, Allocate 60, Allocate 24, Deallocate 4096 10, Deallocate 4112 24, Reset, Allocate 3]
     = Returns ([Inr 4096, Inr 8192, Inr 4112, Inr 4096],
                \<lparr>m_buf = 4096, m_size = 64, m_cursor = 4104\<rparr>,
                [Posix_memalign 8 60 (Some 8192)])
   \<and> (8::nat) dvd unat (4104 - 4096 :: 64 word) \<and> (8::nat) dvd 8192 \<and> (8::nat) dvd 4112"
proof -
  let ?a = "\<lparr>m_buf = 4096, m_size = 64, m_cursor = 4096\<rparr>"
  have p: "is_power2 8" by (simp add: is_power2_def)
  have b: "unat (8::64 word) dvd unat (m_buf ?a)" by simp
  have c: "unat (8::64 word) dvd unat (m_cursor ?a - m_buf ?a)" by simp
  have pl: "\<forall>h n p. platform_at 8192 h 8 n = Some p \<longrightarrow> unat (8::64 word) dvd unat p"
    by (auto simp: platform_at_def)
  have run: "run (platform_at 8192) 8 ?a []
       [Allocate 10, Allocate 60, Allocate 24, Deallocate 4096 10, Deallocate 4112 24, Reset, Allocate 3]
     = Returns ([Inr 4096, Inr 8192, Inr 4112, Inr 4096],
                \<lparr>m_buf = 4096, m_size = 64, m_cursor = 4104\<rparr>,
                [Posix_memalign 8 60 (Some 8192)])"
    by (simp add: arena_eval)
  from pointers_aligned [OF p b c pl run] p run
  show ?thesis by simp
qed

subsection \<open>C6: dynamic_arena::alloc frees the old buffer once, first\<close>

text \<open>
  C6. \<^verbatim>\<open>alloc(0)\<close> throws "invalid allocation: byte_count = 0" (InvalidArgument) and
  touches neither the arena nor the heap. \<^verbatim>\<open>alloc(n)\<close> with \<open>n > 0\<close> on an arena with a
  buffer, when \<^verbatim>\<open>posix_memalign\<close> succeeds: the heap log grows by exactly the \<^verbatim>\<open>free\<close> of
  the old buffer followed by the \<^verbatim>\<open>posix_memalign\<close> of \<open>n\<close> bytes, and the new block is
  attached with the cursor at its start. The scenario: a \<^verbatim>\<open>dynamic_arena\<close> built with 32
  bytes, then \<^verbatim>\<open>alloc(64)\<close>, makes three platform calls in this order: the allocation of
  32 bytes, one \<^verbatim>\<open>free\<close> of that block, the allocation of 64 bytes.
\<close>

theorem alloc_frees_once:
  "alloc pm A a h 0 = (Inl InvalidArgument, a, h)
   \<and> (n \<noteq> 0 \<longrightarrow> has_buf a \<longrightarrow> pm (h @ [Free (m_buf a)]) A n = Some p \<longrightarrow> p \<noteq> 0 \<longrightarrow>
        alloc pm A a h n
          = (Inr (), \<lparr>m_buf = p, m_size = n, m_cursor = p\<rparr>,
             h @ [Free (m_buf a), Posix_memalign A n (Some p)]))
   \<and> (pm h A 32 = Some p_old \<longrightarrow> p_old \<noteq> 0 \<longrightarrow>
        pm (h @ [Posix_memalign A 32 (Some p_old), Free p_old]) A 64 = Some p_new \<longrightarrow> p_new \<noteq> 0 \<longrightarrow>
        dynamic_arena pm A h 32 = (r_old, a_old, h_old) \<longrightarrow> alloc pm A a_old h_old 64 = (r_new, a_new, h_new) \<longrightarrow>
          r_old = Inr () \<and> a_old = \<lparr>m_buf = p_old, m_size = 32, m_cursor = p_old\<rparr>
          \<and> h_old = h @ [Posix_memalign A 32 (Some p_old)]
          \<and> r_new = Inr () \<and> a_new = \<lparr>m_buf = p_new, m_size = 64, m_cursor = p_new\<rparr>
          \<and> h_new = h_old @ [Free p_old, Posix_memalign A 64 (Some p_new)]
          \<and> length (filter (\<lambda>c. c = Free p_old) (drop (length h) h_new)) = 1)"
proof -
  have c2: "alloc pm A a h n
          = (Inr (), \<lparr>m_buf = p, m_size = n, m_cursor = p\<rparr>,
             h @ [Free (m_buf a), Posix_memalign A n (Some p)])"
    if "n \<noteq> 0" "has_buf a" "pm (h @ [Free (m_buf a)]) A n = Some p" "p \<noteq> 0"
    using that by (simp add: alloc_attached)
  have c3: "r_old = Inr () \<and> a_old = \<lparr>m_buf = p_old, m_size = 32, m_cursor = p_old\<rparr>
          \<and> h_old = h @ [Posix_memalign A 32 (Some p_old)]
          \<and> r_new = Inr () \<and> a_new = \<lparr>m_buf = p_new, m_size = 64, m_cursor = p_new\<rparr>
          \<and> h_new = h_old @ [Free p_old, Posix_memalign A 64 (Some p_new)]
          \<and> length (filter (\<lambda>c. c = Free p_old) (drop (length h) h_new)) = 1"
    if p_old: "pm h A 32 = Some p_old" "p_old \<noteq> 0"
      and p_new: "pm (h @ [Posix_memalign A 32 (Some p_old), Free p_old]) A 64 = Some p_new" "p_new \<noteq> 0"
      and d: "dynamic_arena pm A h 32 = (r_old, a_old, h_old)"
      and a: "alloc pm A a_old h_old 64 = (r_new, a_new, h_new)"
  proof -
    have "\<not> has_buf arena_interf_ctor" by (simp add: has_buf_def arena_interf_ctor_def)
    then have "dynamic_arena pm A h 32
        = (Inr (), \<lparr>m_buf = p_old, m_size = 32, m_cursor = p_old\<rparr>, h @ [Posix_memalign A 32 (Some p_old)])"
      using p_old by (simp add: dynamic_arena_def alloc_unattached)
    with d have e32: "r_old = Inr ()" "a_old = \<lparr>m_buf = p_old, m_size = 32, m_cursor = p_old\<rparr>"
      "h_old = h @ [Posix_memalign A 32 (Some p_old)]" by simp_all
    have hb: "has_buf a_old" using p_old(2) by (simp add: e32 has_buf_def)
    have "alloc pm A a_old h_old 64
        = (Inr (), \<lparr>m_buf = p_new, m_size = 64, m_cursor = p_new\<rparr>,
           h_old @ [Free p_old, Posix_memalign A 64 (Some p_new)])"
      using p_new hb by (simp add: alloc_attached e32)
    with a have e64: "r_new = Inr ()" "a_new = \<lparr>m_buf = p_new, m_size = 64, m_cursor = p_new\<rparr>"
      "h_new = h_old @ [Free p_old, Posix_memalign A 64 (Some p_new)]" by simp_all
    show ?thesis using e32 e64 by simp
  qed
  from alloc_zero c2 c3 show ?thesis by blast
qed

theorem alloc_frees_once_witness:
  "dynamic_arena platform_fresh 16 [] 32
     = (Inr (), \<lparr>m_buf = 1048576, m_size = 32, m_cursor = 1048576\<rparr>,
        [Posix_memalign 16 32 (Some 1048576)])
   \<and> alloc platform_fresh 16 \<lparr>m_buf = 1048576, m_size = 32, m_cursor = 1048576\<rparr>
        [Posix_memalign 16 32 (Some 1048576)] 64
     = (Inr (), \<lparr>m_buf = 3145728, m_size = 64, m_cursor = 3145728\<rparr>,
        [Posix_memalign 16 32 (Some 1048576), Free 1048576, Posix_memalign 16 64 (Some 3145728)])
   \<and> alloc platform_fresh 16 \<lparr>m_buf = 1048576, m_size = 32, m_cursor = 1048576\<rparr>
        [Posix_memalign 16 32 (Some 1048576)] 0
     = (Inl InvalidArgument, \<lparr>m_buf = 1048576, m_size = 32, m_cursor = 1048576\<rparr>,
        [Posix_memalign 16 32 (Some 1048576)])"
proof -
  let ?a32 = "\<lparr>m_buf = 1048576, m_size = 32, m_cursor = 1048576\<rparr>"
  let ?h32 = "[Posix_memalign 16 32 (Some 1048576)]"
  have p1: "platform_fresh [] 16 32 = Some 1048576" by (simp add: platform_fresh_def)
  have p2: "platform_fresh ([] @ [Posix_memalign 16 32 (Some 1048576), Free 1048576]) 16 64
              = Some 3145728"
    by (simp add: platform_fresh_def)
  have p2': "platform_fresh (?h32 @ [Free (m_buf ?a32)]) 16 64 = Some 3145728"
    by (simp add: platform_fresh_def)
  have nz: "(1048576::64 word) \<noteq> 0" "(3145728::64 word) \<noteq> 0" "(64::64 word) \<noteq> 0" by simp_all
  have hb: "has_buf ?a32" by (simp add: has_buf_def)
  have d: "dynamic_arena platform_fresh 16 [] 32 = (Inr (), ?a32, ?h32)"
    by (simp add: dynamic_arena_def alloc_def arena_interf_ctor_def has_buf_def
        alloc_aligned_def overalign_alloc_def set_buf_def platform_fresh_def)
  obtain r64 a64 h64 where a: "alloc platform_fresh 16 ?a32 ?h32 64 = (r64, a64, h64)"
    by (cases "alloc platform_fresh 16 ?a32 ?h32 64") auto
  from alloc_frees_once [where pm = platform_fresh and A = 16 and a = ?a32 and h = ?h32
      and n = 64 and p = 3145728]
    alloc_frees_once [where pm = platform_fresh and A = 16 and h = "[]" and p_old = 1048576
      and p_new = 3145728 and r_old = "Inr ()" and a_old = ?a32 and h_old = ?h32 and r_new = r64
      and a_new = a64 and h_new = h64]
    p1 p2 p2' nz hb d a
  show ?thesis by simp
qed

subsection \<open>C7: equality of allocator handles\<close>

text \<open>
  C7. \<^verbatim>\<open>operator==\<close> holds exactly when the two handles name the same arena object and have
  the same \<^verbatim>\<open>Alignment\<close>. Two handles made from one arena are equal whatever their element
  types, and so is a handle and its rebound copy. Handles of two distinct arena objects are
  unequal, also when the two objects are in the same state (same buffer, size and cursor).
  \<^verbatim>\<open>operator!=\<close> is the negation.
\<close>

theorem allocator_equality:
  "(operator_eq x y \<longleftrightarrow> m_arena x = m_arena y \<and> Alignment x = Alignment y)
   \<and> operator_eq (allocator_ctor sz al A r) (allocator_ctor sz' al' A r)
   \<and> operator_eq x (allocator_conv sz' al' x)
   \<and> (r \<noteq> r' \<longrightarrow> st r = st r' \<longrightarrow>
        \<not> operator_eq (allocator_ctor sz al A r) (allocator_ctor sz al A r')
        \<and> \<not> operator_eq (allocator_ctor sz al A r) (allocator_ctor sz' al' A r'))
   \<and> (operator_ne x y \<longleftrightarrow> \<not> operator_eq x y)"
  by (auto simp: operator_eq_def operator_ne_def allocator_ctor_def allocator_conv_def)

theorem allocator_equality_witness:
  "(0::nat) \<noteq> 1 \<and> store_empty 0 = store_empty 1
   \<and> operator_eq (allocator_ctor 4 4 8 0) (allocator_ctor 1 1 8 0)
   \<and> \<not> operator_eq (allocator_ctor 4 4 8 0) (allocator_ctor 4 4 8 1)
   \<and> operator_ne (allocator_ctor 4 4 8 0) (allocator_ctor 4 4 8 1)"
proof -
  have d: "(0::nat) \<noteq> 1" by simp
  have s: "store_empty 0 = store_empty 1" by (simp add: store_empty_def)
  from allocator_equality [where x = "allocator_ctor 4 4 8 0" and y = "allocator_ctor 4 4 8 1"
      and sz = 4 and al = 4 and A = 8 and r = 0 and r' = 1 and sz' = 1 and al' = 1
      and st = store_empty] d s
  show ?thesis by blast
qed

subsection \<open>C8: svobuf reserves its inline storage\<close>

text \<open>
  C8. Let \<^verbatim>\<open>alignof(T)\<close> be a power of two that divides \<^verbatim>\<open>sizeof(T)\<close>, let \<open>N > 0\<close>, let the
  inline array of \<open>N * sizeof(T)\<close> bytes lie in the address space, and let \<^verbatim>\<open>reserve(N)\<close>
  allocate at least \<open>N\<close> elements, as the standard requires. Whenever the constructor of
  \<^verbatim>\<open>svobuf<T, N>\<close> returns, the capacity of \<^verbatim>\<open>c\<close> is \<open>N\<close>, its storage is the inline array, no
  call to the heap has been made, and the arena's cursor is at the end of the array; and
  for every \<open>k \<le> N\<close>, \<open>k\<close> insertions in a row return without touching the arena or the
  heap. With a \<^verbatim>\<open>reserve\<close> that allocates exactly \<open>N\<close> elements the constructor does return.
\<close>

theorem svobuf_reserves_inline:
  assumes "is_power2 al" and "unat al dvd unat sz" and "sz \<noteq> 0" and "N \<noteq> 0"
    and "m_storage \<noteq> 0" and "unat m_storage + unat N * unat sz < 2 ^ 64"
    and "N \<le> reserve_capacity impl N"
  shows "(svobuf_ctor impl pm sz al N r m_storage st h = Returns (Inr sv, st', h') \<longrightarrow>
            N \<le> v_capacity (c sv) \<and> v_capacity (c sv) = svocap N \<and> v_size (c sv) = 0
            \<and> h' = h
            \<and> v_data (c sv) = m_storage
            \<and> st' = st(r := \<lparr>m_buf = m_storage, m_size = N * sz, m_cursor = m_storage + N * sz\<rparr>)
            \<and> (\<forall>k\<le>unat N. push_back_n impl pm k (c sv) st' h'
                  = Returns (Inr (), (c sv)\<lparr>v_size := of_nat k\<rparr>, st', h')))
       \<and> (N \<le> max_size impl \<longrightarrow> reserve_capacity impl N = N \<longrightarrow>
            (\<exists>sv st'. svobuf_ctor impl pm sz al N r m_storage st h = Returns (Inr sv, st', h)))"
proof -
  have built: "N \<le> v_capacity (c sv) \<and> v_capacity (c sv) = svocap N \<and> v_size (c sv) = 0
            \<and> h' = h
            \<and> v_data (c sv) = m_storage
            \<and> st' = st(r := \<lparr>m_buf = m_storage, m_size = N * sz, m_cursor = m_storage + N * sz\<rparr>)
            \<and> (\<forall>k\<le>unat N. push_back_n impl pm k (c sv) st' h'
                  = Returns (Inr (), (c sv)\<lparr>v_size := of_nat k\<rparr>, st', h'))"
    if ctor: "svobuf_ctor impl pm sz al N r m_storage st h = Returns (Inr sv, st', h')"
  proof -
    note cap = svobuf_ctor_built_capacity [OF assms(4) ctor]
    have ex: "reserve_capacity impl N = N" using cap(2) assms(7) by simp
    note e = svobuf_ctor_exact [OF assms(1-6) cap(1) ex, of pm r st h]
    with ctor have sv: "sv = \<lparr>sv_m_arena = r,
                   c = \<lparr>v_alloc = allocator_ctor sz al al r, v_data = m_storage,
                        v_size = 0, v_capacity = N\<rparr>\<rparr>"
      and st': "st' = st(r := \<lparr>m_buf = m_storage, m_size = N * sz, m_cursor = m_storage + N * sz\<rparr>)"
      and h': "h' = h" by simp_all
    have "push_back_n impl pm k (c sv) st' h'
                  = Returns (Inr (), (c sv)\<lparr>v_size := of_nat k\<rparr>, st', h')"
      if "k \<le> unat N" for k
    proof -
      have "unat (v_size (c sv)) + k \<le> unat (v_capacity (c sv))" using that by (simp add: sv)
      then have "push_back_n impl pm k (c sv) st' h'
          = Returns (Inr (), (c sv)\<lparr>v_size := v_size (c sv) + of_nat k\<rparr>, st', h')"
        by (rule push_back_n_within_capacity)
      then show ?thesis by (simp add: sv)
    qed
    then show ?thesis using sv st' h' by (simp add: svocap_def)
  qed
  have exists: "\<exists>sv st'. svobuf_ctor impl pm sz al N r m_storage st h = Returns (Inr sv, st', h)"
    if "N \<le> max_size impl" and "reserve_capacity impl N = N"
    using svobuf_ctor_exact [OF assms(1-6) that, of pm r st h] by blast
  from built exists show ?thesis by blast
qed

theorem svobuf_reserves_inline_witness:
  "svobuf_ctor vector_exact platform_fail 4 4 4 0 4096 store_empty []
     = Returns (Inr \<lparr>sv_m_arena = 0,
                     c = \<lparr>v_alloc = allocator_ctor 4 4 4 0, v_data = 4096,
                          v_size = 0, v_capacity = 4\<rparr>\<rparr>,
                store_empty(0 := \<lparr>m_buf = 4096, m_size = 16, m_cursor = 4112\<rparr>), [])
   \<and> push_back_n vector_exact platform_fail 4
        \<lparr>v_alloc = allocator_ctor 4 4 4 0, v_data = 4096, v_size = 0, v_capacity = 4\<rparr>
        (store_empty(0 := \<lparr>m_buf = 4096, m_size = 16, m_cursor = 4112\<rparr>)) []
     = Returns (Inr (),
                \<lparr>v_alloc = allocator_ctor 4 4 4 0, v_data = 4096, v_size = 4, v_capacity = 4\<rparr>,
                store_empty(0 := \<lparr>m_buf = 4096, m_size = 16, m_cursor = 4112\<rparr>), [])"
proof -
  let ?c = "\<lparr>v_alloc = allocator_ctor 4 4 4 0, v_data = 4096, v_size = 0, v_capacity = 4\<rparr>"
  let ?sv = "\<lparr>sv_m_arena = 0, c = ?c\<rparr>"
  let ?st = "store_empty(0 := \<lparr>m_buf = 4096, m_size = 16, m_cursor = 4112\<rparr>)"
  have p: "is_power2 4" by (simp add: is_power2_def)
  have d: "unat (4::64 word) dvd unat (4::64 word)" by simp
  have nz: "(4::64 word) \<noteq> 0" "(4096::64 word) \<noteq> 0" by simp_all
  have fit: "unat (4096::64 word) + unat (4::64 word) * unat (4::64 word) < 2 ^ 64" by simp
  have rc: "(4::64 word) \<le> reserve_capacity vector_exact 4" by (simp add: vector_exact_def)
  have ctor: "svobuf_ctor vector_exact platform_fail 4 4 4 0 4096 store_empty []
     = Returns (Inr ?sv, ?st, [])"
    by (simp add: svobuf_ctor_def fixed_arena_def set_buf_def arena_interf_ctor_def reserve_def
        vector_exact_def vector_ctor_def vector_reallocate_def allocator_allocate_def
        allocator_ctor_def store_empty_def arena_eval)
  have k: "(4::nat) \<le> unat (4::64 word)" by simp
  have mx: "(4::64 word) \<le> max_size vector_exact" by (simp add: vector_exact_def)
  have ex: "reserve_capacity vector_exact 4 = 4" by (simp add: vector_exact_def)
  from svobuf_reserves_inline [OF p d nz(1) nz(1) nz(2) fit rc,
      where pm = platform_fail and r = 0 and st = store_empty and h = "[]" and sv = ?sv
        and st' = ?st and h' = "[]"] ctor k mx ex
  show ?thesis by simp
qed

subsection \<open>C9: the size rounding is modular\<close>

text \<open>
  C9, at \<open>Alignment = 1\<close>, a legal alignment (\<open>check_alignment 1\<close> holds, and
  \<^verbatim>\<open>svobuf<char, N>\<close> uses it): \<open>aligned_size 1 SIZE_MAX\<close> is \<open>SIZE_MAX\<close>, not \<open>0\<close>, and
  \<^verbatim>\<open>allocate(SIZE_MAX)\<close> on a fresh 64-byte arena takes the fallback path: it calls
  \<^verbatim>\<open>posix_memalign(1, SIZE_MAX)\<close> and, when that fails, throws; it does not return the
  cursor.
\<close>

theorem aligned_size_at_alignment_one:
  "is_power2 1 \<and> check_alignment 1 \<and> aligned_size 1 (- 1) = - 1 \<and> aligned_size 1 (- 1) \<noteq> 0
   \<and> detect_outlive \<lparr>m_buf = 4096, m_size = 64, m_cursor = 4096\<rparr> = Inr ()
   \<and> allocate platform_fail 1 \<lparr>m_buf = 4096, m_size = 64, m_cursor = 4096\<rparr> [] (- 1)
       = (Inl (AllocationFailure 1 (- 1)), \<lparr>m_buf = 4096, m_size = 64, m_cursor = 4096\<rparr>,
          [Posix_memalign 1 (- 1) None])"
  by (simp add: max64_numeral is_power2_def check_alignment_def alignof_max_align_t_def
      arena_eval)

text \<open>
  C9, amended to alignments of at least 2. For every power of two \<open>A\<close> and every
  \<open>byte_count\<close> \<open>n\<close>:
  \<^item> \<open>aligned_size A n\<close> is \<open>(n + A - 1) mod 2 ^ 64\<close> with the low \<open>log2 A\<close> bits cleared,
    that is, rounded down to a multiple of \<open>A\<close>;
  \<^item> it is the least multiple of \<open>A\<close> that is at least \<open>n\<close> (\<open>round_up\<close>, see
    \<open>round_up_least\<close>) if and only if \<open>n \<le> SIZE_MAX - (A - 1)\<close>;
  \<^item> for a larger \<open>n\<close> it is \<open>0\<close>, which is below \<open>n\<close>;
  \<^item> when \<open>A \<ge> 2\<close>, \<open>aligned_size A SIZE_MAX = 0\<close>, and \<^verbatim>\<open>allocate(SIZE_MAX)\<close> on an arena
    that has a buffer and whose cursor is within it returns the cursor, which is not null,
    and leaves the arena, hence \<^verbatim>\<open>used()\<close>, and the heap as they were: no exception and no
    call of \<^verbatim>\<open>posix_memalign\<close>.
  \<open>SIZE_MAX\<close> is the word \<open>- 1\<close>.
\<close>

theorem aligned_size_modular:
  assumes "is_power2 A"
  shows "unat (aligned_size A n) = (unat n + (unat A - 1)) mod 2 ^ 64 div unat A * unat A
       \<and> (unat (aligned_size A n) = round_up (unat A) (unat n)
            \<longleftrightarrow> unat n \<le> 2 ^ 64 - 1 - (unat A - 1))
       \<and> (\<not> unat n \<le> 2 ^ 64 - 1 - (unat A - 1) \<longrightarrow> aligned_size A n = 0 \<and> aligned_size A n < n)
       \<and> (2 \<le> unat A \<longrightarrow> aligned_size A (- 1) = 0)
       \<and> (2 \<le> unat A \<longrightarrow> detect_outlive a = Inr () \<longrightarrow>
            allocate pm A a h (- 1) = (Inr (m_cursor a), a, h) \<and> m_cursor a \<noteq> 0
            \<and> used (fst (snd (allocate pm A a h (- 1)))) = used a)"
proof -
  have pos: "0 < unat A" using assms by (rule is_power2_pos)
  have ltA: "unat A < 2 ^ 64" by (rule unat_lt64)
  have c1: "unat (aligned_size A n) = (unat n + (unat A - 1)) mod 2 ^ 64 div unat A * unat A"
    using assms by (rule aligned_size_unat)
  have wrap: "aligned_size A m = 0 \<and> aligned_size A m < m"
    if "\<not> unat m \<le> 2 ^ 64 - 1 - (unat A - 1)" for m
  proof -
    from that have big: "2 ^ 64 \<le> unat m + (unat A - 1)" using ltA by simp
    then have z: "aligned_size A m = 0" using assms by (simp only: aligned_size_wrap)
    have "unat m \<noteq> 0" using that ltA pos by auto
    then have "m \<noteq> 0" by (simp add: unat_eq_0)
    with z show ?thesis by (simp add: word_gt_0)
  qed
  have c2: "unat (aligned_size A n) = round_up (unat A) (unat n)
            \<longleftrightarrow> unat n \<le> 2 ^ 64 - 1 - (unat A - 1)"
  proof
    assume eq: "unat (aligned_size A n) = round_up (unat A) (unat n)"
    show "unat n \<le> 2 ^ 64 - 1 - (unat A - 1)"
    proof (rule ccontr)
      assume "\<not> unat n \<le> 2 ^ 64 - 1 - (unat A - 1)"
      then have "aligned_size A n = 0" and "aligned_size A n < n" using wrap by blast+
      then have "round_up (unat A) (unat n) = 0" and "0 < unat n"
        using eq by (simp_all add: word_less_nat_alt)
      moreover have "unat n \<le> round_up (unat A) (unat n)"
        using pos by (rule round_up_least)
      ultimately show False by simp
    qed
  next
    assume "unat n \<le> 2 ^ 64 - 1 - (unat A - 1)"
    then have "unat n + (unat A - 1) < 2 ^ 64" using ltA by simp
    with assms show "unat (aligned_size A n) = round_up (unat A) (unat n)"
      by (rule aligned_size_round_up)
  qed
  have c4: "aligned_size A (- 1) = 0" if "2 \<le> unat A"
  proof -
    have "\<not> unat (- 1 :: 64 word) \<le> 2 ^ 64 - 1 - (unat A - 1)"
      using that ltA by (simp only: unat_max64)
    then show ?thesis using wrap by blast
  qed
  have c5: "allocate pm A a h (- 1) = (Inr (m_cursor a), a, h) \<and> m_cursor a \<noteq> 0
            \<and> used (fst (snd (allocate pm A a h (- 1)))) = used a"
    if "2 \<le> unat A" and ok: "detect_outlive a = Inr ()"
  proof -
    have "(- 1 :: 64 word) \<noteq> 0" by simp
    with ok c4 [OF that(1)] have al: "allocate pm A a h (- 1) = (Inr (m_cursor a), a, h)"
      by (rule allocate_zero_aligned)
    have "m_buf a \<noteq> 0" and "m_buf a \<le> m_cursor a"
      using ok by (simp_all add: detect_outlive_ok has_buf_def)
    then have "m_cursor a \<noteq> 0" by auto
    with al show ?thesis by simp
  qed
  from c1 c2 wrap c4 c5 show ?thesis by blast
qed

theorem aligned_size_modular_witness:
  "is_power2 8 \<and> unat (aligned_size 8 10) = 16 \<and> round_up 8 10 = 16
   \<and> aligned_size 8 (- 3) = 0 \<and> aligned_size 8 (- 1) = 0
   \<and> allocate platform_fail 8 \<lparr>m_buf = 4096, m_size = 64, m_cursor = 4112\<rparr> [] (- 1)
       = (Inr 4112, \<lparr>m_buf = 4096, m_size = 64, m_cursor = 4112\<rparr>, [])"
proof -
  have p: "is_power2 8" by (simp add: is_power2_def)
  have ok: "detect_outlive \<lparr>m_buf = 4096, m_size = 64, m_cursor = 4112\<rparr> = Inr ()"
    by (simp add: detect_outlive_def in_buf_def get_buf_ex_def get_buf_def has_buf_def)
  have a: "(2::nat) \<le> unat (8::64 word)" by simp
  have r: "round_up 8 10 = 16" by (simp add: round_up_def)
  from aligned_size_modular [OF p, of 10 "\<lparr>m_buf = 4096, m_size = 64, m_cursor = 4112\<rparr>" platform_fail "[]"]
    aligned_size_modular [OF p, of "- 3"]
  show ?thesis using p ok a r by simp
qed

subsection \<open>C10: dynamic_arena::alloc is not atomic\<close>

text \<open>
  C10. \<^verbatim>\<open>alloc(n)\<close> with \<open>n > 0\<close> on an arena with a buffer, when \<^verbatim>\<open>posix_memalign\<close> fails:
  the old buffer has been freed before the failing call, the exception is the allocation
  failure, and the arena is unchanged: \<^verbatim>\<open>has_buf()\<close> is still true, \<^verbatim>\<open>get_buf()\<close> still gives
  the pointer and size of the freed buffer, and the cursor has not moved.
\<close>

theorem alloc_failure_keeps_freed_buffer:
  "n \<noteq> 0 \<longrightarrow> has_buf a \<longrightarrow> pm (h @ [Free (m_buf a)]) A n = None \<longrightarrow>
     alloc pm A a h n
       = (Inl (AllocationFailure A n), a, h @ [Free (m_buf a), Posix_memalign A n None])
     \<and> has_buf (fst (snd (alloc pm A a h n)))
     \<and> get_buf (fst (snd (alloc pm A a h n))) = \<lparr>buf = m_buf a, bsize = m_size a\<rparr>
     \<and> m_cursor (fst (snd (alloc pm A a h n))) = m_cursor a"
  by (simp add: alloc_attached get_buf_def)

theorem alloc_failure_keeps_freed_buffer_witness:
  "has_buf \<lparr>m_buf = 1048576, m_size = 32, m_cursor = 1048592\<rparr>
   \<and> alloc platform_fail 16 \<lparr>m_buf = 1048576, m_size = 32, m_cursor = 1048592\<rparr> [] 64
       = (Inl (AllocationFailure 16 64), \<lparr>m_buf = 1048576, m_size = 32, m_cursor = 1048592\<rparr>,
          [Free 1048576, Posix_memalign 16 64 None])
   \<and> get_buf \<lparr>m_buf = 1048576, m_size = 32, m_cursor = 1048592\<rparr>
       = \<lparr>buf = 1048576, bsize = 32\<rparr>"
proof -
  let ?a = "\<lparr>m_buf = 1048576, m_size = 32, m_cursor = 1048592\<rparr>"
  have hb: "has_buf ?a" by (simp add: has_buf_def)
  have pf: "platform_fail ([] @ [Free (m_buf ?a)]) 16 64 = None" by (simp add: platform_fail_def)
  have nz: "(64::64 word) \<noteq> 0" by simp
  from alloc_failure_keeps_freed_buffer [of 64 ?a platform_fail "[]" 16] hb pf nz
  show ?thesis by (simp add: get_buf_def)
qed

end
